theory Spec2Isabelle
  imports Complex_Main "HOL-Library.Word" "HOL-Library.Multiset"
begin

section \<open>Data model\<close>

text \<open>
  Buffers are byte lists. A transaction id rendered as a hex string
  (\<^verbatim>\<open>txid.toString("hex")\<close>) is modelled by the bytes it encodes, so comparing two hex
  strings is comparing the two byte lists.

  JavaScript numbers that hold counts and amounts are modelled as mathematical integers:
  every amount the ledger can produce is far below \<open>2^53\<close>, where the arithmetic of doubles
  on integers is exact. Nothing in \<^verbatim>\<open>ChainState\<close> clamps at zero, so the fields are \<open>int\<close>.
\<close>

type_synonym byte = "8 word"
type_synonym hash = "byte list"

datatype error =
    TypeError           \<comment> \<open>a property read on null or undefined, reduce of an empty array\<close>
  | NetworkMismatch     \<comment> \<open>\<^verbatim>\<open>Error("Network mismatch for HnscanDB.")\<close>\<close>
  | VersionMismatch     \<comment> \<open>raised by the store's \<^verbatim>\<open>verify\<close>\<close>
  | EncodingError       \<comment> \<open>raised by the buffer reader on a short or oversized read\<close>

record Outpoint =
  hash_op :: hash
  index_op :: nat

text \<open>
  An output as the indexer reads it: \<^verbatim>\<open>output.value\<close>, \<^verbatim>\<open>output.address.getHash()\<close>,
  \<^verbatim>\<open>output.covenant.type\<close>, the name hash \<^verbatim>\<open>output.covenant.get(0)\<close> and the answer of the
  ledger library's \<^verbatim>\<open>output.isUnspendable()\<close>.
\<close>

record Output =
  value_out :: int
  address :: hash
  covenant :: nat
  cov_name :: hash
  unspendable :: bool

record TX =
  inputs :: "Outpoint list"
  outputs :: "Output list"

record Block =
  hash_blk :: hash
  prevBlock :: hash
  txs :: "TX list"

text \<open>\<^verbatim>\<open>view.getOutput(prevout)\<close>: the output a previous outpoint refers to, or null.\<close>

type_synonym CoinView = "Outpoint \<Rightarrow> Output option"

text \<open>
  The covenant type table of the ledger library (\<^verbatim>\<open>rules.types\<close>), which the source
  imports; the library is not part of this repository.
\<close>

definition CLAIM :: nat where "CLAIM = 1"
definition OPEN :: nat where "OPEN = 2"
definition BID :: nat where "BID = 3"
definition REVEAL :: nat where "REVEAL = 4"
definition REDEEM :: nat where "REDEEM = 5"
definition REGISTER :: nat where "REGISTER = 6"
definition UPDATE :: nat where "UPDATE = 7"
definition RENEW :: nat where "RENEW = 8"
definition TRANSFER :: nat where "TRANSFER = 9"
definition FINALIZE :: nat where "FINALIZE = 10"
definition REVOKE :: nat where "REVOKE = 11"

definition isRegister :: "Output \<Rightarrow> bool" where
  "isRegister output = (covenant output = REGISTER)"

section \<open>Chain state (types.js)\<close>

record ChainState =
  tip :: hash
  tx :: int
  coin :: int
  value_cs :: int
  burned :: int
  committed :: bool

definition ZERO_HASH :: hash where
  "ZERO_HASH = replicate 32 0"

text \<open>The constructor of \<^verbatim>\<open>ChainState\<close>.\<close>

definition ChainState_new :: ChainState where
  "ChainState_new =
     \<lparr>tip = ZERO_HASH, tx = 0, coin = 0, value_cs = 0, burned = 0, committed = False\<rparr>"

definition connect :: "ChainState \<Rightarrow> Block \<Rightarrow> ChainState" where
  "connect s block = s\<lparr>tx := tx s + int (length (txs block))\<rparr>"

definition disconnect :: "ChainState \<Rightarrow> Block \<Rightarrow> ChainState" where
  "disconnect s block = s\<lparr>tx := tx s - int (length (txs block))\<rparr>"

definition add :: "ChainState \<Rightarrow> Output \<Rightarrow> ChainState" where
  "add s c = s\<lparr>coin := coin s + 1, value_cs := value_cs s + value_out c\<rparr>"

definition spend :: "ChainState \<Rightarrow> Output \<Rightarrow> ChainState" where
  "spend s c = s\<lparr>coin := coin s - 1, value_cs := value_cs s - value_out c\<rparr>"

definition burn :: "ChainState \<Rightarrow> Output \<Rightarrow> ChainState" where
  "burn s c = s\<lparr>coin := coin s + 1, burned := burned s + value_out c\<rparr>"

definition unburn :: "ChainState \<Rightarrow> Output \<Rightarrow> ChainState" where
  "unburn s c = s\<lparr>coin := coin s - 1, burned := burned s - value_out c\<rparr>"

definition commit :: "ChainState \<Rightarrow> hash \<Rightarrow> ChainState" where
  "commit s h = s\<lparr>tip := h, committed := True\<rparr>"

section \<open>Connecting a block (HnscanDB.saveEntry)\<close>

text \<open>
  The inner loop over the inputs of a transaction: every previous output is looked up in
  the view and spent. A missing output makes \<^verbatim>\<open>spend\<close> read \<^verbatim>\<open>value\<close> of null, which throws.
\<close>

fun spendInputs :: "ChainState \<Rightarrow> CoinView \<Rightarrow> Outpoint list \<Rightarrow> error + ChainState" where
  "spendInputs s view [] = Inr s"
| "spendInputs s view (prevout # rest) =
     (case view prevout of
        None \<Rightarrow> Inl TypeError
      | Some c \<Rightarrow> spendInputs (spend s c) view rest)"

text \<open>The body of the loop over the outputs of a transaction, with its three \<^verbatim>\<open>continue\<close>s.\<close>

definition saveOutput :: "ChainState \<Rightarrow> Output \<Rightarrow> ChainState" where
  "saveOutput s output =
     (if unspendable output then s
      else if isRegister output then burn s output
      else if UPDATE \<le> covenant output \<and> covenant output \<le> REVOKE then s
      else add s output)"

text \<open>The loop over \<^verbatim>\<open>block.txs\<close>; \<open>i\<close> is the loop index, and only \<open>i > 0\<close> spends inputs.\<close>

fun saveTxs :: "ChainState \<Rightarrow> CoinView \<Rightarrow> nat \<Rightarrow> TX list \<Rightarrow> error + ChainState" where
  "saveTxs s view i [] = Inr s"
| "saveTxs s view i (t # rest) =
     (case (if i > 0 then spendInputs s view (inputs t) else Inr s) of
        Inl e \<Rightarrow> Inl e
      | Inr s1 \<Rightarrow> saveTxs (foldl saveOutput s1 (outputs t)) view (Suc i) rest)"

text \<open>
  \<^verbatim>\<open>saveEntry\<close> works on a clone of \<^verbatim>\<open>this.state\<close> and adopts it as \<^verbatim>\<open>this.state\<close> after the
  commit; when it throws, \<^verbatim>\<open>this.state\<close> is untouched. The model maps the old
  \<^verbatim>\<open>this.state\<close> to the new one.
\<close>

definition saveEntry :: "ChainState \<Rightarrow> Block \<Rightarrow> CoinView \<Rightarrow> error + ChainState" where
  "saveEntry state block view =
     (case saveTxs (connect state block) view 0 (txs block) of
        Inl e \<Rightarrow> Inl e
      | Inr pending \<Rightarrow> Inr (commit pending (hash_blk block)))"

section \<open>Disconnecting a block\<close>

text \<open>
  Modelled from the spec: the block-level disconnect of the index. The handler of the
  ledger's disconnect event lives in the indexer, which is not among the sources, and
  \<^verbatim>\<open>HnscanDB\<close> has no counterpart of \<^verbatim>\<open>saveEntry\<close>. The spec describes it as the exact
  symmetric inverse of connect: the transaction count is decremented
  (\<^verbatim>\<open>ChainState.disconnect\<close>), every input spent on connect is given back (the inverse of
  \<^verbatim>\<open>spend\<close> is \<^verbatim>\<open>add\<close>), every register output is unburned, every output that connect
  added is taken out again (the inverse of \<^verbatim>\<open>add\<close> is \<^verbatim>\<open>spend\<close>), the administrative
  outputs are skipped, and the new tip is stamped, which after a disconnect is the
  predecessor of the block. The primitives are those of \<^verbatim>\<open>ChainState\<close> in types.js.
\<close>

fun unspendInputs :: "ChainState \<Rightarrow> CoinView \<Rightarrow> Outpoint list \<Rightarrow> error + ChainState" where
  "unspendInputs s view [] = Inr s"
| "unspendInputs s view (prevout # rest) =
     (case view prevout of
        None \<Rightarrow> Inl TypeError
      | Some c \<Rightarrow> unspendInputs (add s c) view rest)"

text \<open>
  Modelled from the spec: the inverse of the output step of connect, which the absent
  disconnect handler applies to every output: unburn a register output, skip an
  unspendable or administrative one, take any other out of the circulating value.
\<close>

definition removeOutput :: "ChainState \<Rightarrow> Output \<Rightarrow> ChainState" where
  "removeOutput s output =
     (if unspendable output then s
      else if isRegister output then unburn s output
      else if UPDATE \<le> covenant output \<and> covenant output \<le> REVOKE then s
      else spend s output)"

text \<open>
  Modelled from the spec: the loop of the absent disconnect handler over the transactions
  of the block, the coinbase again without inputs.
\<close>

fun removeTxs :: "ChainState \<Rightarrow> CoinView \<Rightarrow> nat \<Rightarrow> TX list \<Rightarrow> error + ChainState" where
  "removeTxs s view i [] = Inr s"
| "removeTxs s view i (t # rest) =
     (case (if i > 0 then unspendInputs s view (inputs t) else Inr s) of
        Inl e \<Rightarrow> Inl e
      | Inr s1 \<Rightarrow> removeTxs (foldl removeOutput s1 (outputs t)) view (Suc i) rest)"

text \<open>
  Modelled from the spec: the absent disconnect handler as a whole, the counterpart of
  \<^verbatim>\<open>saveEntry\<close>; it stamps the predecessor of the block as the new tip.
\<close>

definition removeEntry :: "ChainState \<Rightarrow> Block \<Rightarrow> CoinView \<Rightarrow> error + ChainState" where
  "removeEntry state block view =
     (case removeTxs (disconnect state block) view 0 (txs block) of
        Inl e \<Rightarrow> Inl e
      | Inr pending \<Rightarrow> Inr (commit pending (prevBlock block)))"

text \<open>Connect events delivered one after the other, each block with its coin view.\<close>

fun connectAll :: "ChainState \<Rightarrow> (Block \<times> CoinView) list \<Rightarrow> error + ChainState" where
  "connectAll s [] = Inr s"
| "connectAll s ((b, v) # rest) =
     (case saveEntry s b v of Inl e \<Rightarrow> Inl e | Inr s' \<Rightarrow> connectAll s' rest)"

text \<open>
  Modelled from the spec: disconnect events delivered one after the other, each handled
  by the disconnect modelled above.
\<close>

fun disconnectAll :: "ChainState \<Rightarrow> (Block \<times> CoinView) list \<Rightarrow> error + ChainState" where
  "disconnectAll s [] = Inr s"
| "disconnectAll s ((b, v) # rest) =
     (case removeEntry s b v of Inl e \<Rightarrow> Inl e | Inr s' \<Rightarrow> disconnectAll s' rest)"

text \<open>A sequence of blocks that extends the tip \<open>t\<close>: each block names its predecessor.\<close>

fun chained :: "hash \<Rightarrow> Block list \<Rightarrow> bool" where
  "chained t [] = True"
| "chained t (b # rest) = (prevBlock b = t \<and> chained (hash_blk b) rest)"

section \<open>Opening the store (HnscanDB.open, verifyNetwork, getState)\<close>

text \<open>
  The key-value store, seen through the key layout (the layout module is not among the
  sources, so each family of keys is a field): the version record \<open>V\<close>, the network magic
  \<open>O\<close>, the chain state slot \<open>s\<close>, the funding index \<open>o\<close> (an address hash to its
  transaction ids and heights, as the range iterator yields them in key order), the
  spend pointer \<open>i\<close> (looked up by the truncated transaction id and the output index, which
  is undefined when the funding output was not found; the lookup may fail on it), the
  height \<open>t\<close> of a spending transaction, and the name index \<open>n\<close>.
\<close>

record Store =
  slot_V :: "(string \<times> nat) option"
  slot_O :: "byte list option"
  slot_s :: "byte list option"
  iter_o :: "hash \<Rightarrow> (hash \<times> nat) list"
  get_i :: "hash \<Rightarrow> nat option \<Rightarrow> error + hash option"
  get_t :: "hash \<Rightarrow> nat option"
  iter_n :: "hash \<Rightarrow> (hash \<times> nat) list"

text \<open>Little-endian numbers in buffers: \<^verbatim>\<open>fromU32\<close>, \<^verbatim>\<open>toU32\<close> and the reader's \<^verbatim>\<open>readU64\<close>.\<close>

fun le_nat :: "byte list \<Rightarrow> nat" where
  "le_nat [] = 0"
| "le_nat (b # bs) = unat b + 256 * le_nat bs"

fun le_bytes :: "nat \<Rightarrow> nat \<Rightarrow> byte list" where
  "le_bytes 0 n = []"
| "le_bytes (Suc k) n = of_nat (n mod 256) # le_bytes k (n div 256)"

definition fromU32 :: "nat \<Rightarrow> byte list" where
  "fromU32 num = le_bytes 4 num"

definition toU32 :: "byte list \<Rightarrow> error + nat" where
  "toU32 buf = (if length buf < 4 then Inl EncodingError else Inr (le_nat (take 4 buf)))"

definition readHash :: "byte list \<Rightarrow> error + hash \<times> byte list" where
  "readHash br = (if length br < 32 then Inl EncodingError else Inr (take 32 br, drop 32 br))"

text \<open>The reader refuses a number above \<open>2^53 - 1\<close>.\<close>

definition readU64 :: "byte list \<Rightarrow> error + int \<times> byte list" where
  "readU64 br =
     (if length br < 8 then Inl EncodingError
      else if le_nat (take 8 br) > 2 ^ 53 - 1 then Inl EncodingError
      else Inr (int (le_nat (take 8 br)), drop 8 br))"

text \<open>\<^verbatim>\<open>ChainState.read\<close> on a fresh \<^verbatim>\<open>ChainState\<close> (\<^verbatim>\<open>ChainState.decode\<close>).\<close>

definition ChainState_decode :: "byte list \<Rightarrow> error + ChainState" where
  "ChainState_decode data =
     (case readHash data of Inl e \<Rightarrow> Inl e | Inr (h, br1) \<Rightarrow>
      (case readU64 br1 of Inl e \<Rightarrow> Inl e | Inr (a, br2) \<Rightarrow>
       (case readU64 br2 of Inl e \<Rightarrow> Inl e | Inr (b, br3) \<Rightarrow>
        (case readU64 br3 of Inl e \<Rightarrow> Inl e | Inr (c, br4) \<Rightarrow>
         (case readU64 br4 of Inl e \<Rightarrow> Inl e | Inr (d, br5) \<Rightarrow>
            Inr \<lparr>tip = h, tx = a, coin = b, value_cs = c, burned = d, committed = False\<rparr>)))))"

record ChartData =
  time :: nat
  difficulty :: real
  transactions :: nat
  supply_cd :: int
  burned_cd :: int
  totalTx :: int

text \<open>
  The fields of \<^verbatim>\<open>HnscanDB\<close> that the modelled methods use; \<^verbatim>\<open>magic\<close> is
  \<^verbatim>\<open>this.network.magic\<close>. The constructor starts from a fresh chain state and an empty
  chart buffer.
\<close>

record HnscanDB =
  magic :: nat
  state :: ChainState
  chartDataCurrentDate :: nat
  chartDataCurrent :: "ChartData list"

definition HnscanDB_new :: "nat \<Rightarrow> HnscanDB" where
  "HnscanDB_new m =
     \<lparr>magic = m, state = ChainState_new, chartDataCurrentDate = 0, chartDataCurrent = []\<rparr>"

text \<open>
  The store library's \<^verbatim>\<open>verify(key, name, version)\<close>: a missing version record is
  written, a present one must carry the same name and version.
\<close>

definition verify :: "Store \<Rightarrow> string \<Rightarrow> nat \<Rightarrow> error + Store" where
  "verify db name version =
     (case slot_V db of
        None \<Rightarrow> Inr (db\<lparr>slot_V := Some (name, version)\<rparr>)
      | Some (n, v) \<Rightarrow> if n = name \<and> v = version then Inr db else Inl VersionMismatch)"

definition getState :: "Store \<Rightarrow> error + ChainState option" where
  "getState db =
     (case slot_s db of
        None \<Rightarrow> Inr None
      | Some data \<Rightarrow>
          (case ChainState_decode data of Inl e \<Rightarrow> Inl e | Inr st \<Rightarrow> Inr (Some st)))"

definition open_db :: "HnscanDB \<Rightarrow> Store \<Rightarrow> error + HnscanDB \<times> Store" where
  "open_db hdb db =
     (case verify db ''hnscan'' 0 of
        Inl e \<Rightarrow> Inl e
      | Inr db1 \<Rightarrow>
          (case getState db1 of
             Inl e \<Rightarrow> Inl e
           | Inr None \<Rightarrow> Inr (hdb, db1)
           | Inr (Some st) \<Rightarrow> Inr (hdb\<lparr>state := st\<rparr>, db1)))"

definition verifyNetwork :: "HnscanDB \<Rightarrow> Store \<Rightarrow> error + Store" where
  "verifyNetwork hdb db =
     (case slot_O db of
        None \<Rightarrow> Inr (db\<lparr>slot_O := Some (fromU32 (magic hdb))\<rparr>)
      | Some raw \<Rightarrow>
          (case toU32 raw of
             Inl e \<Rightarrow> Inl e
           | Inr m \<Rightarrow> if m \<noteq> magic hdb then Inl NetworkMismatch else Inr db))"

section \<open>Chart aggregation (ChartData.fromArray, HnscanDB.setChartData)\<close>

text \<open>
  The difficulty is a double in the source; the model computes with real numbers, so it
  says what the aggregation computes up to the rounding of floating point.

  The callback of \<^verbatim>\<open>data.reduce\<close>: difficulty and transactions are summed, the three
  running totals take the maximum.
\<close>

definition reduce_step :: "ChartData \<Rightarrow> ChartData \<Rightarrow> ChartData" where
  "reduce_step a b =
     a\<lparr>difficulty := difficulty a + difficulty b,
       transactions := transactions a + transactions b,
       supply_cd := max (supply_cd a) (supply_cd b),
       burned_cd := max (burned_cd a) (burned_cd b),
       totalTx := max (totalTx a) (totalTx b)\<rparr>"

text \<open>
  \<^verbatim>\<open>reduce\<close> without an initial value starts from the first element and throws on an
  empty array. The time of the result is the day number of the first element.
\<close>

definition fromArray :: "ChartData list \<Rightarrow> error + ChartData" where
  "fromArray data =
     (case data of
        [] \<Rightarrow> Inl TypeError
      | d0 # rest \<Rightarrow>
          (let totals = foldl reduce_step d0 rest in
           Inr (totals\<lparr>difficulty := difficulty totals / real (length data),
                     time := time d0 div (3600 * 24)\<rparr>)))"

text \<open>\<^verbatim>\<open>ChartData.write\<close>: the persisted record has the five fields below and no time.\<close>

type_synonym chart_record = "real \<times> nat \<times> int \<times> int \<times> int"

definition encode_cd :: "ChartData \<Rightarrow> chart_record" where
  "encode_cd c = (difficulty c, transactions c, supply_cd c, burned_cd c, totalTx c)"

text \<open>
  \<^verbatim>\<open>setChartData\<close> returns the new aggregator fields and the records it put into the
  store, each with the timestamp of its key. The first branch does not return, so the
  \<^verbatim>\<open>push\<close> after the conditional runs as well.
\<close>

definition setChartData ::
  "HnscanDB \<Rightarrow> ChartData \<Rightarrow> error + HnscanDB \<times> (nat \<times> chart_record) list" where
  "setChartData h data =
     (let date = time data div (3600 * 24) in
      if chartDataCurrentDate h = 0 then
        Inr (h\<lparr>chartDataCurrentDate := date,
                chartDataCurrent := (chartDataCurrent h @ [data]) @ [data]\<rparr>, [])
      else if date > chartDataCurrentDate h then
        (case fromArray (chartDataCurrent h) of
           Inl e \<Rightarrow> Inl e
         | Inr avg \<Rightarrow>
             Inr (h\<lparr>chartDataCurrent := [data], chartDataCurrentDate := date\<rparr>,
                  [(date * 3600 * 24, encode_cd avg)]))
      else Inr (h\<lparr>chartDataCurrent := chartDataCurrent h @ [data]\<rparr>, []))"

text \<open>Points observed one after the other; the records put are collected in order.\<close>

fun observeAll ::
  "HnscanDB \<Rightarrow> ChartData list \<Rightarrow> error + HnscanDB \<times> (nat \<times> chart_record) list" where
  "observeAll h [] = Inr (h, [])"
| "observeAll h (p # ps) =
     (case setChartData h p of
        Inl e \<Rightarrow> Inl e
      | Inr (h1, w1) \<Rightarrow>
          (case observeAll h1 ps of
             Inl e \<Rightarrow> Inl e
           | Inr (h2, w2) \<Rightarrow> Inr (h2, w1 @ w2)))"

section \<open>Address index queries (addressFunding, addressSpent, addressBalance, addressUnspent)\<close>

text \<open>\<^verbatim>\<open>client.getTX(txid)\<close>: the transaction of the chain with that id, or null.\<close>

type_synonym ChainClient = "hash \<Rightarrow> TX option"

text \<open>
  A field that the source may leave undefined is an option, and a number that may have
  become NaN by adding undefined to it is a \<open>jsnum\<close>.
\<close>

datatype jsnum = Num int | NaN

fun js_add :: "jsnum \<Rightarrow> int option \<Rightarrow> jsnum" where
  "js_add (Num a) (Some b) = Num (a + b)"
| "js_add _ _ = NaN"

fun js_sub :: "jsnum \<Rightarrow> jsnum \<Rightarrow> jsnum" where
  "js_sub (Num a) (Num b) = Num (a - b)"
| "js_sub _ _ = NaN"

record Funding =
  tx_hash_f :: hash
  height_f :: nat
  output_index :: "nat option"
  value_f :: "int option"

record Spent =
  tx_hash_s :: hash
  height_s :: nat
  funding_output :: "hash \<times> nat option"
  value_s :: "int option"

record Unspent =
  tx_hash_u :: hash
  height_u :: nat
  tx_pos :: "nat option"
  value_u :: "int option"

record Balance =
  confirmed :: jsnum
  unconfirmed :: jsnum
  received :: jsnum
  spent :: jsnum

text \<open>
  The search for the funding output: the first output of the transaction that pays the
  address; \<open>i\<close> is the loop index. Without a match both results stay undefined.
\<close>

fun findOutput :: "hash \<Rightarrow> Output list \<Rightarrow> nat \<Rightarrow> nat option \<times> int option" where
  "findOutput userHash [] i = (None, None)"
| "findOutput userHash (out # rest) i =
     (if userHash = address out then (Some i, Some (value_out out))
      else findOutput userHash rest (Suc i))"

text \<open>
  The callback of \<^verbatim>\<open>iter.each\<close> in \<^verbatim>\<open>_addressFunding\<close>, run over the entries of the
  address in key order. A transaction the client does not find makes the read of its
  outputs throw.
\<close>

fun fundingEach :: "ChainClient \<Rightarrow> hash \<Rightarrow> (hash \<times> nat) list \<Rightarrow> error + Funding list" where
  "fundingEach client userHash [] = Inr []"
| "fundingEach client userHash ((txid, h) # rest) =
     (case client txid of
        None \<Rightarrow> Inl TypeError
      | Some newtx \<Rightarrow>
          (case fundingEach client userHash rest of
             Inl e \<Rightarrow> Inl e
           | Inr funding \<Rightarrow>
               Inr (\<lparr>tx_hash_f = txid, height_f = h,
                     output_index = fst (findOutput userHash (outputs newtx) 0),
                     value_f = snd (findOutput userHash (outputs newtx) 0)\<rparr> # funding)))"

text \<open>\<^verbatim>\<open>_addressFunding\<close>.\<close>

definition addressFunding_inner :: "ChainClient \<Rightarrow> Store \<Rightarrow> hash \<Rightarrow> error + Funding list" where
  "addressFunding_inner client db addr = fundingEach client addr (iter_o db addr)"

text \<open>
  \<^verbatim>\<open>addressFunding\<close> catches every exception and then returns undefined (\<open>None\<close>); the
  unconfirmed list is always empty.
\<close>

definition addressFunding ::
  "ChainClient \<Rightarrow> Store \<Rightarrow> hash \<Rightarrow> (Funding list \<times> Funding list) option" where
  "addressFunding client db addr =
     (case addressFunding_inner client db addr of
        Inl e \<Rightarrow> None
      | Inr confirmed' \<Rightarrow> Some (confirmed', []))"

text \<open>
  \<^verbatim>\<open>_addressSpent\<close>: for every funding record the spend pointer is looked up under the
  first eight bytes of the transaction id and the output index; when there is one, the
  height of the spending transaction is read (and decoding a missing height throws).
\<close>

fun addressSpent_inner :: "Store \<Rightarrow> Funding list \<Rightarrow> error + Spent list" where
  "addressSpent_inner db [] = Inr []"
| "addressSpent_inner db (f # rest) =
     (case get_i db (take 8 (tx_hash_f f)) (output_index f) of
        Inl e \<Rightarrow> Inl e
      | Inr None \<Rightarrow> addressSpent_inner db rest
      | Inr (Some txHashX) \<Rightarrow>
          (case get_t db txHashX of
             None \<Rightarrow> Inl TypeError
           | Some height \<Rightarrow>
               (case addressSpent_inner db rest of
                  Inl e \<Rightarrow> Inl e
                | Inr spents \<Rightarrow>
                    Inr (\<lparr>tx_hash_s = txHashX, height_s = height,
                          funding_output = (tx_hash_f f, output_index f),
                          value_s = value_f f\<rparr> # spents))))"

definition addressSpent :: "Store \<Rightarrow> hash \<Rightarrow> Funding list \<Rightarrow> error + Spent list \<times> Spent list" where
  "addressSpent db addr funding =
     (case addressSpent_inner db funding of
        Inl e \<Rightarrow> Inl e
      | Inr confirmed' \<Rightarrow> Inr (confirmed', []))"

text \<open>Destructuring the undefined result of \<^verbatim>\<open>addressFunding\<close> throws.\<close>

definition addressBalance :: "ChainClient \<Rightarrow> Store \<Rightarrow> hash \<Rightarrow> error + Balance" where
  "addressBalance client db addr =
     (case addressFunding client db addr of
        None \<Rightarrow> Inl TypeError
      | Some (fConfirmed, fUnconfirmed) \<Rightarrow>
          (case addressSpent db addr fConfirmed of
             Inl e \<Rightarrow> Inl e
           | Inr (sConfirmed, sUnconfirmed) \<Rightarrow>
               (let totalFunded = foldl js_add (Num 0) (map value_f fConfirmed);
                    totalSpent = foldl js_add (Num 0) (map value_s sConfirmed)
                in Inr \<lparr>confirmed = js_sub totalFunded totalSpent,
                        unconfirmed = js_sub totalFunded totalSpent,
                        received = totalFunded,
                        spent = totalSpent\<rparr>)))"

definition newtx_of :: "Funding \<Rightarrow> Unspent" where
  "newtx_of f =
     \<lparr>tx_hash_u = tx_hash_f f, height_u = height_f f, tx_pos = output_index f,
      value_u = value_f f\<rparr>"

definition addressUnspent :: "ChainClient \<Rightarrow> Store \<Rightarrow> hash \<Rightarrow> error + Unspent list" where
  "addressUnspent client db addr =
     (case addressFunding client db addr of
        None \<Rightarrow> Inl TypeError
      | Some (fConfirmed, fUnconfirmed) \<Rightarrow>
          (case addressSpent db addr fConfirmed of
             Inl e \<Rightarrow> Inl e
           | Inr (sConfirmed, sUnconfirmed) \<Rightarrow>
               Inr (foldl (\<lambda>txs s. filter (\<lambda>t. tx_hash_u t \<noteq> fst (funding_output s)) txs)
                      (map newtx_of fConfirmed) sConfirmed)))"

section \<open>Name history (HnscanDB.nameHistory, Hnscan.getNameHistory)\<close>

record NameTx =
  tx_hash_n :: hash
  height_n :: nat

definition nameHistory :: "Store \<Rightarrow> hash \<Rightarrow> NameTx list" where
  "nameHistory db nameHash =
     map (\<lambda>(txid, h). \<lparr>tx_hash_n = txid, height_n = h\<rparr>) (iter_n db nameHash)"

text \<open>The comparison function handed to \<^verbatim>\<open>entireList.sort\<close>.\<close>

definition compare_height :: "NameTx \<Rightarrow> NameTx \<Rightarrow> int" where
  "compare_height a b = (if height_n a < height_n b then 1 else - 1)"

text \<open>
  \<^verbatim>\<open>Array.prototype.sort\<close> belongs to the runtime. The language fixes its result only for
  a comparison function that is consistent, which demands that an element compares equal
  to itself; \<open>compare_height\<close> never answers zero. The model therefore does not pick an
  algorithm: \<open>sort_result cmp xs ys\<close> says that \<open>ys\<close> is an outcome a comparison sort may
  produce from \<open>xs\<close>, namely a rearrangement of \<open>xs\<close> in which no element stands before
  one that the comparison function puts in front of it.
\<close>

definition sort_result :: "('a \<Rightarrow> 'a \<Rightarrow> int) \<Rightarrow> 'a list \<Rightarrow> 'a list \<Rightarrow> bool" where
  "sort_result cmp xs ys = (mset ys = mset xs \<and> sorted_wrt (\<lambda>a b. cmp a b \<le> 0) ys)"

text \<open>\<^verbatim>\<open>list.slice(start, end)\<close> for indices that are not negative.\<close>

definition slice :: "'a list \<Rightarrow> nat \<Rightarrow> nat \<Rightarrow> 'a list" where
  "slice xs start end' = take (end' - start) (drop start xs)"

text \<open>
  The transaction as \<^verbatim>\<open>getTransaction\<close> returns it, reduced to what the history reads:
  its time and, for every output, the value, the covenant type and the name hash that
  \<^verbatim>\<open>cov.get(0)\<close> yields.
\<close>

record OutputJSON =
  value_j :: int
  cov_type :: nat
  cov_get0 :: hash

record TXJSON =
  mtime :: nat
  outputs_j :: "OutputJSON list"

record HistoryEntry =
  action :: "string option"
  value_h :: "int option"
  time_h :: nat
  height_h :: nat
  txid_h :: hash
  index_h :: nat

text \<open>The ledger library's \<^verbatim>\<open>cov.isName()\<close>: the types from claim to revoke.\<close>

definition isName :: "OutputJSON \<Rightarrow> bool" where
  "isName o' = (CLAIM \<le> cov_type o' \<and> cov_type o' \<le> REVOKE)"

text \<open>The chain of \<^verbatim>\<open>if\<close>s that labels an output; the types exclude one another.\<close>

definition action_of :: "OutputJSON \<Rightarrow> string option \<times> int option" where
  "action_of o' =
     (if cov_type o' = OPEN then (Some ''Opened'', None)
      else if cov_type o' = BID then (Some ''Bid'', Some (value_j o'))
      else if cov_type o' = REVEAL then (Some ''Reveal'', Some (value_j o'))
      else if cov_type o' = REGISTER then (Some ''Register'', None)
      else if cov_type o' = REDEEM then (Some ''Redeem'', Some (value_j o'))
      else if cov_type o' = UPDATE then (Some ''Update'', None)
      else if cov_type o' = RENEW then (Some ''Renew'', None)
      else (None, None))"

text \<open>The loop over the outputs of one transaction of the list; \<open>j\<close> is the output index.\<close>

fun historyOutputs :: "hash \<Rightarrow> NameTx \<Rightarrow> nat \<Rightarrow> OutputJSON list \<Rightarrow> nat \<Rightarrow> HistoryEntry list" where
  "historyOutputs nameHash item t [] j = []"
| "historyOutputs nameHash item t (o' # rest) j =
     (if isName o' \<and> cov_get0 o' = nameHash
      then [\<lparr>action = fst (action_of o'), value_h = snd (action_of o'), time_h = t,
              height_h = height_n item, txid_h = tx_hash_n item, index_h = j\<rparr>]
      else [])
     @ historyOutputs nameHash item t rest (Suc j)"

text \<open>The loop over the page; a transaction that is not found makes the read of its outputs throw.\<close>

fun historyList ::
  "(hash \<Rightarrow> TXJSON option) \<Rightarrow> hash \<Rightarrow> NameTx list \<Rightarrow> error + HistoryEntry list" where
  "historyList getTransaction nameHash [] = Inr []"
| "historyList getTransaction nameHash (item # rest) =
     (case getTransaction (tx_hash_n item) of
        None \<Rightarrow> Inl TypeError
      | Some t \<Rightarrow>
          (case historyList getTransaction nameHash rest of
             Inl e \<Rightarrow> Inl e
           | Inr history \<Rightarrow>
               Inr (historyOutputs nameHash item (mtime t) (outputs_j t) 0 @ history)))"

text \<open>
  \<^verbatim>\<open>getNameHistory\<close> from the sorted list on: the total, the page and the history of the
  page. The name hash stands for \<^verbatim>\<open>rules.hashName(name)\<close>.
\<close>

definition getNameHistory_sorted ::
  "(hash \<Rightarrow> TXJSON option) \<Rightarrow> hash \<Rightarrow> NameTx list \<Rightarrow> nat \<Rightarrow> nat \<Rightarrow>
     error + HistoryEntry list \<times> nat" where
  "getNameHistory_sorted getTransaction nameHash entireList offset limit =
     (let total = length entireList;
          list = slice entireList offset (offset + limit)
      in case historyList getTransaction nameHash list of
           Inl e \<Rightarrow> Inl e
         | Inr history \<Rightarrow> Inr (history, total))"

section \<open>Auxiliary notions for the proofs\<close>

text \<open>
  \<open>undo s s' u\<close> takes from \<open>u\<close> what a run from \<open>s\<close> to \<open>s'\<close> added to the three totals;
  \<open>same_rest s s'\<close> says that the run left the other fields alone.
\<close>

definition undo :: "ChainState \<Rightarrow> ChainState \<Rightarrow> ChainState \<Rightarrow> ChainState" where
  "undo s s' u =
     u\<lparr>coin := coin u - (coin s' - coin s),
       value_cs := value_cs u - (value_cs s' - value_cs s),
       burned := burned u - (burned s' - burned s)\<rparr>"

definition same_rest :: "ChainState \<Rightarrow> ChainState \<Rightarrow> bool" where
  "same_rest s s' = (tip s' = tip s \<and> tx s' = tx s \<and> committed s' = committed s)"

definition same_totals :: "ChainState \<Rightarrow> ChainState \<Rightarrow> bool" where
  "same_totals a b =
     (tx a = tx b \<and> coin a = coin b \<and> value_cs a = value_cs b \<and> burned a = burned b)"

text \<open>One more coin and \<open>v\<close> more burned value.\<close>

definition credit :: "int \<Rightarrow> int \<Rightarrow> ChainState \<Rightarrow> ChainState" where
  "credit c v s = s\<lparr>coin := coin s + c, burned := burned s + v\<rparr>"

definition onResult ::
  "(ChainState \<Rightarrow> ChainState) \<Rightarrow> error + ChainState \<Rightarrow> error + ChainState" where
  "onResult f r = (case r of Inl e \<Rightarrow> Inl e | Inr s \<Rightarrow> Inr (f s))"

section \<open>Concrete inputs\<close>

subsection \<open>Two blocks\<close>

text \<open>
  The first block has only its coinbase. The second has a coinbase and a transaction that
  spends the reward of the first block into a register output, an update output, an
  ordinary payment and an unspendable output.
\<close>

definition ex_reward1 :: Output where
  "ex_reward1 =
     \<lparr>value_out = 2000, address = [1], covenant = 0, cov_name = [], unspendable = False\<rparr>"

definition ex_reward2 :: Output where
  "ex_reward2 =
     \<lparr>value_out = 2000, address = [2], covenant = 0, cov_name = [], unspendable = False\<rparr>"

definition ex_register :: Output where
  "ex_register =
     \<lparr>value_out = 300, address = [1], covenant = 6, cov_name = [9], unspendable = False\<rparr>"

definition ex_update :: Output where
  "ex_update =
     \<lparr>value_out = 40, address = [1], covenant = 7, cov_name = [9], unspendable = False\<rparr>"

definition ex_payment :: Output where
  "ex_payment =
     \<lparr>value_out = 1500, address = [3], covenant = 0, cov_name = [], unspendable = False\<rparr>"

definition ex_nulldata :: Output where
  "ex_nulldata =
     \<lparr>value_out = 0, address = [], covenant = 0, cov_name = [], unspendable = True\<rparr>"

definition ex_prevout :: Outpoint where
  "ex_prevout = \<lparr>hash_op = [10], index_op = 0\<rparr>"

definition ex_coinbase1 :: TX where
  "ex_coinbase1 = \<lparr>inputs = [\<lparr>hash_op = [], index_op = 0\<rparr>], outputs = [ex_reward1]\<rparr>"

definition ex_coinbase2 :: TX where
  "ex_coinbase2 = \<lparr>inputs = [\<lparr>hash_op = [], index_op = 0\<rparr>], outputs = [ex_reward2]\<rparr>"

definition ex_tx :: TX where
  "ex_tx =
     \<lparr>inputs = [ex_prevout], outputs = [ex_register, ex_update, ex_payment, ex_nulldata]\<rparr>"

definition ex_block1 :: Block where
  "ex_block1 = \<lparr>hash_blk = [1], prevBlock = ZERO_HASH, txs = [ex_coinbase1]\<rparr>"

definition ex_block2 :: Block where
  "ex_block2 = \<lparr>hash_blk = [2], prevBlock = [1], txs = [ex_coinbase2, ex_tx]\<rparr>"

definition ex_view1 :: CoinView where
  "ex_view1 = (\<lambda>prevout. None)"

definition ex_view2 :: CoinView where
  "ex_view2 = (\<lambda>prevout. if prevout = ex_prevout then Some ex_reward1 else None)"

definition ex_state1 :: ChainState where
  "ex_state1 =
     \<lparr>tip = [1], tx = 1, coin = 1, value_cs = 2000, burned = 0, committed = True\<rparr>"

definition ex_state2 :: ChainState where
  "ex_state2 =
     \<lparr>tip = [2], tx = 3, coin = 3, value_cs = 3500, burned = 300, committed = True\<rparr>"

subsection \<open>Four chart points\<close>

text \<open>Three points of day 1 and one point at the first second of day 2.\<close>

definition ex_p0 :: ChartData where
  "ex_p0 = \<lparr>time = 86400, difficulty = 1, transactions = 1, supply_cd = 10, burned_cd = 0,
            totalTx = 1\<rparr>"

definition ex_p1 :: ChartData where
  "ex_p1 = \<lparr>time = 86401, difficulty = 2, transactions = 2, supply_cd = 20, burned_cd = 0,
            totalTx = 3\<rparr>"

definition ex_p2 :: ChartData where
  "ex_p2 = \<lparr>time = 172799, difficulty = 3, transactions = 4, supply_cd = 30, burned_cd = 5,
            totalTx = 7\<rparr>"

definition ex_p3 :: ChartData where
  "ex_p3 = \<lparr>time = 172800, difficulty = 9, transactions = 1, supply_cd = 40, burned_cd = 5,
            totalTx = 8\<rparr>"

text \<open>An aggregator in the middle of day 1, holding two points.\<close>

definition ex_hdb :: HnscanDB where
  "ex_hdb = \<lparr>magic = 0, state = ChainState_new, chartDataCurrentDate = 1,
             chartDataCurrent = [ex_p1, ex_p2]\<rparr>"

subsection \<open>A store\<close>

text \<open>
  The address \<open>[7]\<close> was paid by two transactions; the output of the first is spent by the
  transaction \<open>[3]\<close> at height 8. The address \<open>[5]\<close> was paid by one transaction, at its
  outputs 0 and 1; output 0 is spent by the transaction \<open>[4]\<close> at height 9 and output 1 has
  no spend pointer. The name \<open>[9]\<close> has three transactions at the heights
  10, 40 and 25, the name \<open>[8]\<close> two transactions at the same height 5. The persisted
  network magic is 1.
\<close>

definition ex_txid_a :: hash where
  "ex_txid_a = [1, 1, 1, 1, 1, 1, 1, 1, 1]"

definition ex_txid_b :: hash where
  "ex_txid_b = [2, 2, 2, 2, 2, 2, 2, 2, 2]"

definition ex_txid_c :: hash where
  "ex_txid_c = [3, 3, 3, 3, 3, 3, 3, 3, 3]"

definition ex_store :: Store where
  "ex_store =
     \<lparr>slot_V = None,
      slot_O = Some [1, 0, 0, 0],
      slot_s = None,
      iter_o = (\<lambda>h. if h = [7] then [(ex_txid_a, 5), (ex_txid_b, 6)]
                     else if h = [5] then [(ex_txid_c, 7)] else []),
      get_i = (\<lambda>prefix i.
         if prefix = [1, 1, 1, 1, 1, 1, 1, 1] \<and> i = Some 1 then Inr (Some [3])
         else if prefix = [3, 3, 3, 3, 3, 3, 3, 3] \<and> i = Some 0 then Inr (Some [4])
         else Inr None),
      get_t = (\<lambda>h. if h = [3] then Some 8 else if h = [4] then Some 9 else None),
      iter_n = (\<lambda>h. if h = [9] then [([1], 10), ([2], 40), ([3], 25)]
                     else if h = [8] then [([5], 5), ([6], 5)] else [])\<rparr>"

definition ex_client :: ChainClient where
  "ex_client =
     (\<lambda>txid.
        if txid = ex_txid_a then
          Some \<lparr>inputs = [], outputs =
            [\<lparr>value_out = 10, address = [6], covenant = 0, cov_name = [], unspendable = False\<rparr>,
             \<lparr>value_out = 100, address = [7], covenant = 0, cov_name = [], unspendable = False\<rparr>]\<rparr>
        else if txid = ex_txid_b then
          Some \<lparr>inputs = [], outputs =
            [\<lparr>value_out = 50, address = [7], covenant = 0, cov_name = [], unspendable = False\<rparr>]\<rparr>
        else if txid = ex_txid_c then
          Some \<lparr>inputs = [], outputs =
            [\<lparr>value_out = 10, address = [5], covenant = 0, cov_name = [], unspendable = False\<rparr>,
             \<lparr>value_out = 20, address = [5], covenant = 0, cov_name = [], unspendable = False\<rparr>]\<rparr>
        else None)"

definition ex_getTransaction :: "hash \<Rightarrow> TXJSON option" where
  "ex_getTransaction =
     (\<lambda>txid.
        if txid = [1] then
          Some \<lparr>mtime = 100, outputs_j = [\<lparr>value_j = 0, cov_type = 2, cov_get0 = [9]\<rparr>]\<rparr>
        else if txid = [2] then
          Some \<lparr>mtime = 400, outputs_j =
            [\<lparr>value_j = 3, cov_type = 0, cov_get0 = []\<rparr>,
             \<lparr>value_j = 7, cov_type = 3, cov_get0 = [9]\<rparr>]\<rparr>
        else if txid = [3] then
          Some \<lparr>mtime = 250, outputs_j = [\<lparr>value_j = 7, cov_type = 4, cov_get0 = [9]\<rparr>]\<rparr>
        else if txid = [5] then
          Some \<lparr>mtime = 50, outputs_j = [\<lparr>value_j = 0, cov_type = 2, cov_get0 = [8]\<rparr>]\<rparr>
        else if txid = [6] then
          Some \<lparr>mtime = 50, outputs_j = [\<lparr>value_j = 2, cov_type = 3, cov_get0 = [8]\<rparr>]\<rparr>
        else None)"

section \<open>Facts about the chain state\<close>

lemmas ex_chain_defs = ex_reward1_def ex_reward2_def ex_register_def ex_update_def
  ex_payment_def ex_nulldata_def ex_prevout_def ex_coinbase1_def ex_coinbase2_def ex_tx_def
  ex_block1_def ex_block2_def ex_view1_def ex_view2_def ex_state1_def ex_state2_def

lemmas chain_defs = saveEntry_def removeEntry_def connect_def disconnect_def commit_def
  saveOutput_def removeOutput_def add_def spend_def burn_def unburn_def isRegister_def
  REGISTER_def UPDATE_def REVOKE_def ChainState_new_def ZERO_HASH_def

subsection \<open>What connect adds, disconnect takes away, and conversely\<close>

lemma saveOutput_undo:
  "removeOutput u out = undo s (saveOutput s out) u \<and> same_rest s (saveOutput s out)"
  by (simp add: removeOutput_def saveOutput_def undo_def same_rest_def burn_def unburn_def
      add_def spend_def)

lemma removeOutput_undo:
  "saveOutput u out = undo s (removeOutput s out) u \<and> same_rest s (removeOutput s out)"
  by (simp add: removeOutput_def saveOutput_def undo_def same_rest_def burn_def unburn_def
      add_def spend_def)

lemma saveOutputs_undo:
  "foldl removeOutput u outs = undo s (foldl saveOutput s outs) u
     \<and> same_rest s (foldl saveOutput s outs)"
proof (induction outs arbitrary: s u)
  case Nil
  show ?case by (simp add: same_rest_def undo_def)
next
  case (Cons out outs)
  have step: "removeOutput u out = undo s (saveOutput s out) u"
    and keep: "same_rest s (saveOutput s out)"
    using saveOutput_undo [of u out s] by simp_all
  have ih: "foldl removeOutput (undo s (saveOutput s out) u) outs
      = undo (saveOutput s out) (foldl saveOutput (saveOutput s out) outs)
          (undo s (saveOutput s out) u)"
    and ih2: "same_rest (saveOutput s out) (foldl saveOutput (saveOutput s out) outs)"
    using Cons.IH [of "undo s (saveOutput s out) u" "saveOutput s out"] by simp_all
  show ?case
    using step keep ih ih2 by (simp add: undo_def same_rest_def)
qed

lemma removeOutputs_undo:
  "foldl saveOutput u outs = undo s (foldl removeOutput s outs) u
     \<and> same_rest s (foldl removeOutput s outs)"
proof (induction outs arbitrary: s u)
  case Nil
  show ?case by (simp add: same_rest_def undo_def)
next
  case (Cons out outs)
  have step: "saveOutput u out = undo s (removeOutput s out) u"
    and keep: "same_rest s (removeOutput s out)"
    using removeOutput_undo [of u out s] by simp_all
  have ih: "foldl saveOutput (undo s (removeOutput s out) u) outs
      = undo (removeOutput s out) (foldl removeOutput (removeOutput s out) outs)
          (undo s (removeOutput s out) u)"
    and ih2: "same_rest (removeOutput s out) (foldl removeOutput (removeOutput s out) outs)"
    using Cons.IH [of "undo s (removeOutput s out) u" "removeOutput s out"] by simp_all
  show ?case
    using step keep ih ih2 by (simp add: undo_def same_rest_def)
qed

lemma spendInputs_undo:
  "spendInputs s view ins = Inr s' \<Longrightarrow>
     unspendInputs u view ins = Inr (undo s s' u) \<and> same_rest s s'"
proof (induction ins arbitrary: s u)
  case Nil
  then show ?case by (simp add: same_rest_def undo_def)
next
  case (Cons prevout rest)
  then obtain c where c: "view prevout = Some c"
    and run: "spendInputs (spend s c) view rest = Inr s'"
    by (auto split: option.splits)
  from Cons.IH [OF run, of "add u c"]
  show ?case using c
    by (simp add: undo_def same_rest_def add_def spend_def)
qed

lemma unspendInputs_undo:
  "unspendInputs s view ins = Inr s' \<Longrightarrow>
     spendInputs u view ins = Inr (undo s s' u) \<and> same_rest s s'"
proof (induction ins arbitrary: s u)
  case Nil
  then show ?case by (simp add: same_rest_def undo_def)
next
  case (Cons prevout rest)
  then obtain c where c: "view prevout = Some c"
    and run: "unspendInputs (add s c) view rest = Inr s'"
    by (auto split: option.splits)
  from Cons.IH [OF run, of "spend u c"]
  show ?case using c
    by (simp add: undo_def same_rest_def add_def spend_def)
qed

lemma saveTxs_undo:
  "saveTxs s view i ts = Inr s' \<Longrightarrow>
     removeTxs u view i ts = Inr (undo s s' u) \<and> same_rest s s'"
proof (induction ts arbitrary: s u i)
  case Nil
  then show ?case by (simp add: same_rest_def undo_def)
next
  case (Cons t rest)
  then obtain s1 where s1: "(if i > 0 then spendInputs s view (inputs t) else Inr s) = Inr s1"
    and run: "saveTxs (foldl saveOutput s1 (outputs t)) view (Suc i) rest = Inr s'"
    by (auto split: sum.splits)
  have a: "(if i > 0 then unspendInputs u view (inputs t) else Inr u) = Inr (undo s s1 u)"
    and a2: "same_rest s s1"
    using s1 spendInputs_undo [of s view "inputs t" s1 u]
    by (auto simp: same_rest_def undo_def split: if_splits)
  let ?s2 = "foldl saveOutput s1 (outputs t)"
  have b: "foldl removeOutput (undo s s1 u) (outputs t) = undo s1 ?s2 (undo s s1 u)"
    and b2: "same_rest s1 ?s2"
    using saveOutputs_undo [of "undo s s1 u" "outputs t" s1] by simp_all
  have c: "removeTxs (undo s1 ?s2 (undo s s1 u)) view (Suc i) rest
             = Inr (undo ?s2 s' (undo s1 ?s2 (undo s s1 u)))"
    and c2: "same_rest ?s2 s'"
    using Cons.IH [OF run] by simp_all
  have d: "undo ?s2 s' (undo s1 ?s2 (undo s s1 u)) = undo s s' u"
    by (simp add: undo_def)
  show ?case
    using a b c d a2 b2 c2 by (simp add: same_rest_def)
qed

lemma removeTxs_undo:
  "removeTxs s view i ts = Inr s' \<Longrightarrow>
     saveTxs u view i ts = Inr (undo s s' u) \<and> same_rest s s'"
proof (induction ts arbitrary: s u i)
  case Nil
  then show ?case by (simp add: same_rest_def undo_def)
next
  case (Cons t rest)
  then obtain s1 where s1: "(if i > 0 then unspendInputs s view (inputs t) else Inr s) = Inr s1"
    and run: "removeTxs (foldl removeOutput s1 (outputs t)) view (Suc i) rest = Inr s'"
    by (auto split: sum.splits)
  have a: "(if i > 0 then spendInputs u view (inputs t) else Inr u) = Inr (undo s s1 u)"
    and a2: "same_rest s s1"
    using s1 unspendInputs_undo [of s view "inputs t" s1 u]
    by (auto simp: same_rest_def undo_def split: if_splits)
  let ?s2 = "foldl removeOutput s1 (outputs t)"
  have b: "foldl saveOutput (undo s s1 u) (outputs t) = undo s1 ?s2 (undo s s1 u)"
    and b2: "same_rest s1 ?s2"
    using removeOutputs_undo [of "undo s s1 u" "outputs t" s1] by simp_all
  have c: "saveTxs (undo s1 ?s2 (undo s s1 u)) view (Suc i) rest
             = Inr (undo ?s2 s' (undo s1 ?s2 (undo s s1 u)))"
    and c2: "same_rest ?s2 s'"
    using Cons.IH [OF run] by simp_all
  have d: "undo ?s2 s' (undo s1 ?s2 (undo s s1 u)) = undo s s' u"
    by (simp add: undo_def)
  show ?case
    using a b c d a2 b2 c2 by (simp add: same_rest_def)
qed

text \<open>
  Disconnecting a block from any state \<open>u\<close> that has the totals of the state after its
  connect gives \<open>u\<close> with the totals of the state before the connect; and conversely.
\<close>

lemma saveEntry_removeEntry:
  assumes "saveEntry s b v = Inr s'" and "same_totals u s'"
  shows "removeEntry u b v =
     Inr (u\<lparr>tip := prevBlock b, tx := tx s, coin := coin s, value_cs := value_cs s,
            burned := burned s, committed := True\<rparr>)"
proof -
  from assms(1) obtain p where p: "saveTxs (connect s b) v 0 (txs b) = Inr p"
    and s': "s' = commit p (hash_blk b)"
    by (auto simp: saveEntry_def split: sum.splits)
  from saveTxs_undo [OF p, of "disconnect u b"]
  have r: "removeTxs (disconnect u b) v 0 (txs b)
             = Inr (undo (connect s b) p (disconnect u b))"
    and k: "same_rest (connect s b) p" by simp_all
  have "commit (undo (connect s b) p (disconnect u b)) (prevBlock b)
          = u\<lparr>tip := prevBlock b, tx := tx s, coin := coin s, value_cs := value_cs s,
               burned := burned s, committed := True\<rparr>"
    using k assms(2)
    by (simp add: s' undo_def commit_def connect_def disconnect_def same_rest_def
        same_totals_def)
  then show ?thesis
    using r by (simp add: removeEntry_def)
qed

lemma removeEntry_saveEntry:
  assumes "removeEntry s b v = Inr s'" and "same_totals u s'"
  shows "saveEntry u b v =
     Inr (u\<lparr>tip := hash_blk b, tx := tx s, coin := coin s, value_cs := value_cs s,
            burned := burned s, committed := True\<rparr>)"
proof -
  from assms(1) obtain p where p: "removeTxs (disconnect s b) v 0 (txs b) = Inr p"
    and s': "s' = commit p (prevBlock b)"
    by (auto simp: removeEntry_def split: sum.splits)
  from removeTxs_undo [OF p, of "connect u b"]
  have r: "saveTxs (connect u b) v 0 (txs b) = Inr (undo (disconnect s b) p (connect u b))"
    and k: "same_rest (disconnect s b) p" by simp_all
  have "commit (undo (disconnect s b) p (connect u b)) (hash_blk b)
          = u\<lparr>tip := hash_blk b, tx := tx s, coin := coin s, value_cs := value_cs s,
               burned := burned s, committed := True\<rparr>"
    using k assms(2)
    by (simp add: s' undo_def commit_def connect_def disconnect_def same_rest_def
        same_totals_def)
  then show ?thesis
    using r by (simp add: saveEntry_def)
qed

lemma disconnectAll_append:
  "disconnectAll s (xs @ ys) =
     (case disconnectAll s xs of Inl e \<Rightarrow> Inl e | Inr s' \<Rightarrow> disconnectAll s' ys)"
  by (induction s xs rule: disconnectAll.induct) (auto split: sum.splits)

text \<open>
  The sequence: the totals come back for any blocks whose connects succeed, and the tip
  after the last disconnect is the predecessor that the first block names.
\<close>

lemma connectAll_disconnectAll:
  "connectAll s bvs = Inr s' \<Longrightarrow> same_totals u s' \<Longrightarrow>
     \<exists>u'. disconnectAll u (rev bvs) = Inr u' \<and> same_totals u' s
        \<and> tip u' = (if bvs = [] then tip u else prevBlock (fst (hd bvs)))"
proof (induction bvs arbitrary: s)
  case Nil
  then show ?case by simp
next
  case (Cons bv rest)
  obtain b v where bv: "bv = (b, v)" by (cases bv)
  from Cons.prems(1) bv obtain s1 where s1: "saveEntry s b v = Inr s1"
    and run: "connectAll s1 rest = Inr s'"
    by (auto split: sum.splits)
  from Cons.IH [OF run Cons.prems(2)] obtain u1
    where u1: "disconnectAll u (rev rest) = Inr u1" and t1: "same_totals u1 s1"
    by blast
  from saveEntry_removeEntry [OF s1 t1]
  have "removeEntry u1 b v =
     Inr (u1\<lparr>tip := prevBlock b, tx := tx s, coin := coin s, value_cs := value_cs s,
             burned := burned s, committed := True\<rparr>)" .
  then show ?case
    using u1 bv by (simp add: disconnectAll_append same_totals_def)
qed

lemma chained_tip: "chained t bs \<Longrightarrow> bs \<noteq> [] \<Longrightarrow> prevBlock (hd bs) = t"
  by (cases bs) simp_all

text \<open>
  C1. Connecting a sequence of blocks, each with its coin view, and then disconnecting
  them in reverse order gives back the chain state from which the sequence started.
  Whenever the connects succeed (every spent output is in its view), the disconnects
  succeed too and the transaction count, the coin count, the circulating value and the
  burned value are those of the start; the tip is the tip of the start when the blocks
  extend it, each naming its predecessor. Conversely, connecting again a block that was
  just disconnected restores the four totals, and the tip when the block was the tip.
  The disconnect is the one modelled from the spec.
\<close>

theorem connect_disconnect_roundtrip:
  "(connectAll s bvs = Inr s' \<longrightarrow>
      (\<exists>s''. disconnectAll s' (rev bvs) = Inr s'' \<and> tx s'' = tx s \<and> coin s'' = coin s
          \<and> value_cs s'' = value_cs s \<and> burned s'' = burned s
          \<and> (chained (tip s) (map fst bvs) \<longrightarrow> tip s'' = tip s)))
   \<and> (removeEntry u b v = Inr u' \<longrightarrow>
      (\<exists>u''. saveEntry u' b v = Inr u'' \<and> tx u'' = tx u \<and> coin u'' = coin u
          \<and> value_cs u'' = value_cs u \<and> burned u'' = burned u
          \<and> (hash_blk b = tip u \<longrightarrow> tip u'' = tip u)))"
proof (intro conjI impI)
  assume run: "connectAll s bvs = Inr s'"
  have "same_totals s' s'" by (simp add: same_totals_def)
  from connectAll_disconnectAll [OF run this] obtain s''
    where d: "disconnectAll s' (rev bvs) = Inr s''" and t: "same_totals s'' s"
      and tp: "tip s'' = (if bvs = [] then tip s' else prevBlock (fst (hd bvs)))"
    by blast
  have "tip s'' = tip s" if ch: "chained (tip s) (map fst bvs)"
  proof (cases "bvs = []")
    case True
    then show ?thesis using run tp by simp
  next
    case False
    then show ?thesis
      using tp chained_tip [OF ch] by (simp add: hd_map)
  qed
  then show "\<exists>s''. disconnectAll s' (rev bvs) = Inr s'' \<and> tx s'' = tx s \<and> coin s'' = coin s
          \<and> value_cs s'' = value_cs s \<and> burned s'' = burned s
          \<and> (chained (tip s) (map fst bvs) \<longrightarrow> tip s'' = tip s)"
    using d t by (auto simp: same_totals_def)
next
  assume run: "removeEntry u b v = Inr u'"
  have "same_totals u' u'" by (simp add: same_totals_def)
  from removeEntry_saveEntry [OF run this]
  show "\<exists>u''. saveEntry u' b v = Inr u'' \<and> tx u'' = tx u \<and> coin u'' = coin u
          \<and> value_cs u'' = value_cs u \<and> burned u'' = burned u
          \<and> (hash_blk b = tip u \<longrightarrow> tip u'' = tip u)"
    by simp
qed

lemma ex_connectAll:
  "connectAll ChainState_new [(ex_block1, ex_view1), (ex_block2, ex_view2)] = Inr ex_state2"
  by (simp add: ex_chain_defs chain_defs)

lemma ex_chained:
  "chained (tip ChainState_new) (map fst [(ex_block1, ex_view1), (ex_block2, ex_view2)])"
  by (simp add: ex_chain_defs chain_defs)

lemma ex_removeEntry: "removeEntry ex_state2 ex_block2 ex_view2 = Inr ex_state1"
  by (simp add: ex_chain_defs chain_defs)

theorem connect_disconnect_roundtrip_witness:
  "connectAll ChainState_new [(ex_block1, ex_view1), (ex_block2, ex_view2)] = Inr ex_state2
   \<and> chained (tip ChainState_new) (map fst [(ex_block1, ex_view1), (ex_block2, ex_view2)])
   \<and> (\<exists>s''. disconnectAll ex_state2 (rev [(ex_block1, ex_view1), (ex_block2, ex_view2)]) = Inr s''
         \<and> tx s'' = tx ChainState_new \<and> coin s'' = coin ChainState_new
         \<and> value_cs s'' = value_cs ChainState_new \<and> burned s'' = burned ChainState_new
         \<and> tip s'' = tip ChainState_new)
   \<and> removeEntry ex_state2 ex_block2 ex_view2 = Inr ex_state1
   \<and> hash_blk ex_block2 = tip ex_state2
   \<and> (\<exists>u''. saveEntry ex_state1 ex_block2 ex_view2 = Inr u'' \<and> tx u'' = tx ex_state2
         \<and> coin u'' = coin ex_state2 \<and> value_cs u'' = value_cs ex_state2
         \<and> burned u'' = burned ex_state2 \<and> tip u'' = tip ex_state2)"
proof -
  have tipped: "hash_blk ex_block2 = tip ex_state2"
    by (simp add: ex_block2_def ex_state2_def)
  note rt = connect_disconnect_roundtrip
    [of ChainState_new "[(ex_block1, ex_view1), (ex_block2, ex_view2)]" ex_state2
        ex_state2 ex_block2 ex_view2 ex_state1]
  from rt [THEN conjunct1, THEN mp, OF ex_connectAll]
    rt [THEN conjunct2, THEN mp, OF ex_removeEntry]
  show ?thesis
    using ex_chained ex_connectAll tipped ex_removeEntry by (simp only: simp_thms)
qed

subsection \<open>The effect of one output on the result of a block\<close>

lemma onResult_simps [simp]:
  "onResult f (Inl e) = Inl e" "onResult f (Inr s) = Inr (f s)"
  by (simp_all add: onResult_def)

lemma onResult_ident: "onResult (\<lambda>x. x) r = r"
  by (cases r) simp_all

lemma saveOutput_credit: "saveOutput (credit c v s) out = credit c v (saveOutput s out)"
  by (simp add: saveOutput_def credit_def burn_def add_def)

lemma saveOutputs_credit:
  "foldl saveOutput (credit c v s) outs = credit c v (foldl saveOutput s outs)"
  by (induction outs arbitrary: s) (simp_all add: saveOutput_credit)

lemma commit_credit: "commit (credit c v s) h = credit c v (commit s h)"
  by (simp add: commit_def credit_def)

lemma spendInputs_credit:
  "spendInputs (credit c v s) view ins = onResult (credit c v) (spendInputs s view ins)"
proof (induction ins arbitrary: s)
  case Nil
  show ?case by simp
next
  case (Cons prevout rest)
  have "spend (credit c v s) x = credit c v (spend s x)" for x
    by (simp add: spend_def credit_def)
  then show ?case using Cons.IH by (simp split: option.splits)
qed

lemma saveTxs_credit:
  "saveTxs (credit c v s) view i ts = onResult (credit c v) (saveTxs s view i ts)"
proof (induction ts arbitrary: s i)
  case Nil
  show ?case by simp
next
  case (Cons t rest)
  show ?case
    by (cases "0 < i"; cases "spendInputs s view (inputs t)")
      (simp_all add: spendInputs_credit saveOutputs_credit Cons.IH)
qed

text \<open>
  An output whose step is \<open>f\<close>, where \<open>f\<close> commutes with everything that follows it in the
  block, changes the result of the block by \<open>f\<close>.
\<close>

lemma saveTxs_output_inserted:
  assumes step: "\<And>x. saveOutput x out = f x"
    and f: "\<And>x view i ts. saveTxs (f x) view i ts = onResult f (saveTxs x view i ts)"
    and fo: "\<And>x outs. foldl saveOutput (f x) outs = f (foldl saveOutput x outs)"
  shows "saveTxs s view i (ts1 @ t\<lparr>outputs := pre @ out # post\<rparr> # ts2)
           = onResult f (saveTxs s view i (ts1 @ t\<lparr>outputs := pre @ post\<rparr> # ts2))"
proof (induction ts1 arbitrary: s i)
  case Nil
  show ?case
    by (cases "0 < i"; cases "spendInputs s view (inputs t)") (simp_all add: step f fo)
next
  case (Cons a ts1)
  show ?case
    by (cases "0 < i"; cases "spendInputs s view (inputs a)") (simp_all add: Cons.IH)
qed

lemma saveEntry_output_inserted:
  assumes step: "\<And>x. saveOutput x out = f x"
    and f: "\<And>x view i ts. saveTxs (f x) view i ts = onResult f (saveTxs x view i ts)"
    and fo: "\<And>x outs. foldl saveOutput (f x) outs = f (foldl saveOutput x outs)"
    and fc: "\<And>x h. commit (f x) h = f (commit x h)"
  shows "saveEntry s (b\<lparr>txs := ts1 @ t\<lparr>outputs := pre @ out # post\<rparr> # ts2\<rparr>) view
    = onResult f (saveEntry s (b\<lparr>txs := ts1 @ t\<lparr>outputs := pre @ post\<rparr> # ts2\<rparr>) view)"
proof -
  let ?with = "ts1 @ t\<lparr>outputs := pre @ out # post\<rparr> # ts2"
  let ?without = "ts1 @ t\<lparr>outputs := pre @ post\<rparr> # ts2"
  have same: "connect s (b\<lparr>txs := ?with\<rparr>) = connect s (b\<lparr>txs := ?without\<rparr>)"
    by (simp add: connect_def)
  have run: "saveTxs (connect s (b\<lparr>txs := ?without\<rparr>)) view 0 ?with
      = onResult f (saveTxs (connect s (b\<lparr>txs := ?without\<rparr>)) view 0 ?without)"
    by (rule saveTxs_output_inserted [OF step f fo])
  show ?thesis
    by (cases "saveTxs (connect s (b\<lparr>txs := ?without\<rparr>)) view 0 ?without")
      (simp_all add: saveEntry_def same run fc)
qed

text \<open>
  C2. An output that is not unspendable and whose covenant is a register action raises
  the burned value by exactly its value and leaves the circulating value as it is. This
  holds for the step of the output loop, and for the block as a whole: the block with the
  output ends in the state of the block without it, with the burned value raised by the
  value of the output and one coin more, and with the same circulating value.
\<close>

theorem register_output_is_burned:
  assumes "\<not> unspendable out" and "isRegister out"
  shows "burned (saveOutput s out) = burned s + value_out out
       \<and> value_cs (saveOutput s out) = value_cs s
       \<and> (saveEntry s (b\<lparr>txs := ts1 @ t\<lparr>outputs := pre @ post\<rparr> # ts2\<rparr>) view = Inr s0 \<longrightarrow>
            saveEntry s (b\<lparr>txs := ts1 @ t\<lparr>outputs := pre @ out # post\<rparr> # ts2\<rparr>) view
              = Inr (s0\<lparr>coin := coin s0 + 1, burned := burned s0 + value_out out\<rparr>))"
proof -
  have step: "saveOutput x out = credit 1 (value_out out) x" for x
    using assms by (simp add: saveOutput_def burn_def credit_def)
  have "saveEntry s (b\<lparr>txs := ts1 @ t\<lparr>outputs := pre @ out # post\<rparr> # ts2\<rparr>) view
      = onResult (credit 1 (value_out out))
          (saveEntry s (b\<lparr>txs := ts1 @ t\<lparr>outputs := pre @ post\<rparr> # ts2\<rparr>) view)"
    by (rule saveEntry_output_inserted [OF step])
       (simp_all add: saveTxs_credit saveOutputs_credit commit_credit)
  then show ?thesis
    by (simp add: step credit_def)
qed

lemma ex_without_register:
  "saveEntry ex_state1
     (ex_block2\<lparr>txs := [ex_coinbase2]
        @ ex_tx\<lparr>outputs := [] @ [ex_update, ex_payment, ex_nulldata]\<rparr> # []\<rparr>) ex_view2
     = Inr (ex_state2\<lparr>coin := 2, burned := 0\<rparr>)"
  by (simp add: ex_chain_defs chain_defs)

theorem register_output_is_burned_witness:
  "\<not> unspendable ex_register \<and> isRegister ex_register
   \<and> burned (saveOutput ex_state1 ex_register) = burned ex_state1 + 300
   \<and> value_cs (saveOutput ex_state1 ex_register) = value_cs ex_state1
   \<and> saveEntry ex_state1
        (ex_block2\<lparr>txs := [ex_coinbase2]
           @ ex_tx\<lparr>outputs := [] @ [ex_update, ex_payment, ex_nulldata]\<rparr> # []\<rparr>) ex_view2
       = Inr (ex_state2\<lparr>coin := 2, burned := 0\<rparr>)
   \<and> saveEntry ex_state1
        (ex_block2\<lparr>txs := [ex_coinbase2]
           @ ex_tx\<lparr>outputs := [] @ ex_register # [ex_update, ex_payment, ex_nulldata]\<rparr> # []\<rparr>)
        ex_view2
       = Inr ex_state2"
proof -
  have a: "\<not> unspendable ex_register" and b: "isRegister ex_register"
    by (simp_all add: ex_register_def isRegister_def REGISTER_def)
  have v: "value_out ex_register = 300"
    by (simp add: ex_register_def)
  have e: "ex_state2\<lparr>coin := 2, burned := 0\<rparr>
             \<lparr>coin := coin (ex_state2\<lparr>coin := 2, burned := 0\<rparr>) + 1,
              burned := burned (ex_state2\<lparr>coin := 2, burned := 0\<rparr>) + 300\<rparr> = ex_state2"
    by (simp add: ex_state2_def)
  from register_output_is_burned [OF a b, where s = ex_state1 and b = ex_block2
      and ?ts1.0 = "[ex_coinbase2]" and t = ex_tx and pre = "[]"
      and post = "[ex_update, ex_payment, ex_nulldata]" and ?ts2.0 = "[]" and view = ex_view2
      and ?s0.0 = "ex_state2\<lparr>coin := 2, burned := 0\<rparr>"]
  show ?thesis
    using a b ex_without_register by (simp only: v e simp_thms)
qed

text \<open>
  C3. An output whose covenant type lies in the range from update to revoke changes
  nothing: the step of the output loop returns the state it was given, and the block
  with the output has the very result of the block without it, so the coin count, the
  circulating value and the burned value are untouched.
\<close>

theorem administrative_output_is_skipped:
  assumes "UPDATE \<le> covenant out" and "covenant out \<le> REVOKE"
  shows "saveOutput s out = s
       \<and> saveEntry s (b\<lparr>txs := ts1 @ t\<lparr>outputs := pre @ out # post\<rparr> # ts2\<rparr>) view
           = saveEntry s (b\<lparr>txs := ts1 @ t\<lparr>outputs := pre @ post\<rparr> # ts2\<rparr>) view"
proof -
  have skip: "saveOutput x out = (\<lambda>x. x) x" for x
    using assms by (simp add: saveOutput_def isRegister_def REGISTER_def UPDATE_def)
  have "saveEntry s (b\<lparr>txs := ts1 @ t\<lparr>outputs := pre @ out # post\<rparr> # ts2\<rparr>) view
      = onResult (\<lambda>x. x)
          (saveEntry s (b\<lparr>txs := ts1 @ t\<lparr>outputs := pre @ post\<rparr> # ts2\<rparr>) view)"
    by (rule saveEntry_output_inserted [OF skip]) (simp_all add: onResult_ident)
  then show ?thesis
    using skip by (simp add: onResult_ident)
qed

theorem administrative_output_is_skipped_witness:
  "UPDATE \<le> covenant ex_update \<and> covenant ex_update \<le> REVOKE
   \<and> saveOutput ex_state1 ex_update = ex_state1
   \<and> saveEntry ex_state1
        (ex_block2\<lparr>txs := [ex_coinbase2]
           @ ex_tx\<lparr>outputs := [ex_register] @ ex_update # [ex_payment, ex_nulldata]\<rparr> # []\<rparr>)
        ex_view2
       = saveEntry ex_state1
        (ex_block2\<lparr>txs := [ex_coinbase2]
           @ ex_tx\<lparr>outputs := [ex_register] @ [ex_payment, ex_nulldata]\<rparr> # []\<rparr>) ex_view2
   \<and> saveEntry ex_state1
        (ex_block2\<lparr>txs := [ex_coinbase2]
           @ ex_tx\<lparr>outputs := [ex_register] @ [ex_payment, ex_nulldata]\<rparr> # []\<rparr>) ex_view2
       = Inr ex_state2"
proof -
  have a: "UPDATE \<le> covenant ex_update" and b: "covenant ex_update \<le> REVOKE"
    by (simp_all add: ex_update_def UPDATE_def REVOKE_def)
  have c: "saveEntry ex_state1
        (ex_block2\<lparr>txs := [ex_coinbase2]
           @ ex_tx\<lparr>outputs := [ex_register] @ [ex_payment, ex_nulldata]\<rparr> # []\<rparr>) ex_view2
       = Inr ex_state2"
    by (simp add: ex_chain_defs chain_defs)
  from administrative_output_is_skipped [OF a b, where s = ex_state1 and b = ex_block2
      and ?ts1.0 = "[ex_coinbase2]" and t = ex_tx and pre = "[ex_register]"
      and post = "[ex_payment, ex_nulldata]" and ?ts2.0 = "[]" and view = ex_view2]
  show ?thesis
    using a b c by (simp only: simp_thms)
qed

section \<open>Facts about the chart aggregation\<close>

lemmas ex_chart_defs = ex_p0_def ex_p1_def ex_p2_def ex_p3_def ex_hdb_def

lemma foldl_reduce_difficulty:
  "difficulty (foldl reduce_step a bs) = difficulty a + sum_list (map difficulty bs)"
  by (induction bs arbitrary: a) (simp_all add: reduce_step_def)

lemma foldl_reduce_transactions:
  "transactions (foldl reduce_step a bs) = transactions a + sum_list (map transactions bs)"
  by (induction bs arbitrary: a) (simp_all add: reduce_step_def)

lemma Max_insert_max:
  "finite A \<Longrightarrow> Max (insert (max x y) A) = Max (insert (x::int) (insert y A))"
  by (cases "A = {}") (simp_all add: max.assoc)

lemma foldl_reduce_supply:
  "supply_cd (foldl reduce_step a bs) = Max (set (map supply_cd (a # bs)))"
proof (induction bs arbitrary: a)
  case Nil
  show ?case by simp
next
  case (Cons b bs)
  have "supply_cd (reduce_step a b) = max (supply_cd a) (supply_cd b)"
    by (simp add: reduce_step_def)
  then show ?case
    using Cons.IH [of "reduce_step a b"]
      Max_insert_max [of "set (map supply_cd bs)" "supply_cd a" "supply_cd b"]
    by simp
qed

lemma foldl_reduce_burned:
  "burned_cd (foldl reduce_step a bs) = Max (set (map burned_cd (a # bs)))"
proof (induction bs arbitrary: a)
  case Nil
  show ?case by simp
next
  case (Cons b bs)
  have "burned_cd (reduce_step a b) = max (burned_cd a) (burned_cd b)"
    by (simp add: reduce_step_def)
  then show ?case
    using Cons.IH [of "reduce_step a b"]
      Max_insert_max [of "set (map burned_cd bs)" "burned_cd a" "burned_cd b"]
    by simp
qed

lemma foldl_reduce_totalTx:
  "totalTx (foldl reduce_step a bs) = Max (set (map totalTx (a # bs)))"
proof (induction bs arbitrary: a)
  case Nil
  show ?case by simp
next
  case (Cons b bs)
  have "totalTx (reduce_step a b) = max (totalTx a) (totalTx b)"
    by (simp add: reduce_step_def)
  then show ?case
    using Cons.IH [of "reduce_step a b"]
      Max_insert_max [of "set (map totalTx bs)" "totalTx a" "totalTx b"]
    by simp
qed

text \<open>The record that \<^verbatim>\<open>fromArray\<close> makes of a buffer that is not empty.\<close>

lemma fromArray_record:
  assumes "data \<noteq> []"
  shows "\<exists>avg. fromArray data = Inr avg \<and>
    encode_cd avg = (sum_list (map difficulty data) / real (length data),
                     sum_list (map transactions data),
                     Max (set (map supply_cd data)),
                     Max (set (map burned_cd data)),
                     Max (set (map totalTx data)))"
proof -
  from assms obtain d0 rest where d: "data = d0 # rest" by (cases data) auto
  show ?thesis
    unfolding d
    by (simp add: fromArray_def encode_cd_def Let_def foldl_reduce_difficulty
        foldl_reduce_transactions foldl_reduce_supply foldl_reduce_burned foldl_reduce_totalTx
        del: foldl_Cons)
qed

lemma observeAll_append:
  "observeAll h (xs @ ys) =
     (case observeAll h xs of
        Inl e \<Rightarrow> Inl e
      | Inr (h1, w1) \<Rightarrow>
          (case observeAll h1 ys of Inl e \<Rightarrow> Inl e | Inr (h2, w2) \<Rightarrow> Inr (h2, w1 @ w2)))"
proof (induction xs arbitrary: h)
  case Nil
  show ?case by (simp split: sum.splits prod.splits)
next
  case (Cons x xs)
  show ?case
    by (simp add: Cons.IH split: sum.splits prod.splits)
qed

lemma observeAll_same_day:
  assumes "chartDataCurrentDate h \<noteq> 0"
    and "\<forall>x\<in>set ps. time x div 86400 = chartDataCurrentDate h"
  shows "observeAll h ps = Inr (h\<lparr>chartDataCurrent := chartDataCurrent h @ ps\<rparr>, [])"
  using assms
proof (induction ps arbitrary: h)
  case Nil
  show ?case by simp
next
  case (Cons p ps)
  have one: "setChartData h p = Inr (h\<lparr>chartDataCurrent := chartDataCurrent h @ [p]\<rparr>, [])"
    using Cons.prems by (simp add: setChartData_def Let_def)
  have "observeAll (h\<lparr>chartDataCurrent := chartDataCurrent h @ [p]\<rparr>) ps
      = Inr (h\<lparr>chartDataCurrent := chartDataCurrent h @ [p]\<rparr>
               \<lparr>chartDataCurrent :=
                  chartDataCurrent (h\<lparr>chartDataCurrent := chartDataCurrent h @ [p]\<rparr>) @ ps\<rparr>, [])"
    by (rule Cons.IH) (use Cons.prems in simp_all)
  then show ?case using one by simp
qed

lemma setChartData_first:
  "chartDataCurrentDate h = 0 \<Longrightarrow>
     setChartData h p = Inr (h\<lparr>chartDataCurrentDate := time p div 86400,
                              chartDataCurrent := chartDataCurrent h @ [p, p]\<rparr>, [])"
  by (simp add: setChartData_def Let_def)

lemma ex_observeAll:
  "observeAll (HnscanDB_new 0) [ex_p0, ex_p1, ex_p2, ex_p3]
     = Inr ((HnscanDB_new 0)\<lparr>chartDataCurrent := [ex_p3], chartDataCurrentDate := 2\<rparr>,
            [(172800, 7 / 4, 8, 30, 5, 7)])"
  by (simp add: ex_chart_defs HnscanDB_new_def setChartData_def fromArray_def reduce_step_def
      encode_cd_def Let_def)

text \<open>
  C4, as stated, fails on the very scenario it names. Fed the points at
  \<open>t0\<close>, \<open>t0 + 1\<close>, \<open>t0 + 86399\<close> and \<open>t0 + 86400\<close> with \<open>t0 = 86400\<close>, the aggregator puts
  exactly one record, but under the key of the new day, not under the day of the three
  buffered points; its difficulty is not the mean of the three points, because the first
  one was buffered twice; and its transactions field is the sum over the buffer, not the
  maximum.
\<close>

theorem chart_bucketing_counterexample:
  "observeAll (HnscanDB_new 0) [ex_p0, ex_p1, ex_p2, ex_p3]
     = Inr ((HnscanDB_new 0)\<lparr>chartDataCurrent := [ex_p3], chartDataCurrentDate := 2\<rparr>,
            [(172800, 7 / 4, 8, 30, 5, 7)])
   \<and> time ex_p1 = time ex_p0 + 1 \<and> time ex_p2 = time ex_p0 + 86399
   \<and> time ex_p3 = time ex_p0 + 86400
   \<and> (172800 :: nat) \<noteq> (time ex_p0 div 86400) * 86400
   \<and> (7 / 4 :: real) \<noteq> (difficulty ex_p0 + difficulty ex_p1 + difficulty ex_p2) / 3
   \<and> (8 :: nat) \<noteq> Max {transactions ex_p0, transactions ex_p1, transactions ex_p2}"
  using ex_observeAll by (simp add: ex_chart_defs)

text \<open>
  C4, amended. When the aggregator is initialised (its current day is not 0, so its
  buffer is not empty) and \<^verbatim>\<open>setChartData\<close> receives a point of a later day, it puts exactly
  one record, whose difficulty is the arithmetic mean over the buffer, whose transactions
  field is the sum over the buffer and whose supply, burned and total transaction fields
  are the maxima over the buffer; the buffer then holds the new point alone and the
  current day is the day of the new point. The key of the record is left open.
\<close>

theorem chart_flush_record:
  assumes "chartDataCurrentDate h \<noteq> 0" and "chartDataCurrent h \<noteq> []"
    and "chartDataCurrentDate h < time data div 86400"
  shows "\<exists>key. setChartData h data =
     Inr (h\<lparr>chartDataCurrent := [data], chartDataCurrentDate := time data div 86400\<rparr>,
          [(key,
            sum_list (map difficulty (chartDataCurrent h)) / real (length (chartDataCurrent h)),
            sum_list (map transactions (chartDataCurrent h)),
            Max (set (map supply_cd (chartDataCurrent h))),
            Max (set (map burned_cd (chartDataCurrent h))),
            Max (set (map totalTx (chartDataCurrent h))))])"
proof -
  from fromArray_record [OF assms(2)] obtain avg where
    a: "fromArray (chartDataCurrent h) = Inr avg"
    and e: "encode_cd avg =
      (sum_list (map difficulty (chartDataCurrent h)) / real (length (chartDataCurrent h)),
       sum_list (map transactions (chartDataCurrent h)),
       Max (set (map supply_cd (chartDataCurrent h))),
       Max (set (map burned_cd (chartDataCurrent h))),
       Max (set (map totalTx (chartDataCurrent h))))"
    by blast
  show ?thesis
    using assms(1,3) by (simp add: setChartData_def Let_def a e)
qed

theorem chart_flush_record_witness:
  "chartDataCurrentDate ex_hdb \<noteq> 0 \<and> chartDataCurrent ex_hdb \<noteq> []
   \<and> chartDataCurrentDate ex_hdb < time ex_p3 div 86400
   \<and> (\<exists>key. setChartData ex_hdb ex_p3 =
        Inr (ex_hdb\<lparr>chartDataCurrent := [ex_p3], chartDataCurrentDate := 2\<rparr>,
             [(key, 5 / 2, 6, 30, 5, 7)]))"
proof -
  have a: "chartDataCurrentDate ex_hdb \<noteq> 0" and b: "chartDataCurrent ex_hdb \<noteq> []"
    and c: "chartDataCurrentDate ex_hdb < time ex_p3 div 86400"
    by (simp_all add: ex_chart_defs)
  have v: "sum_list (map difficulty (chartDataCurrent ex_hdb))
             / real (length (chartDataCurrent ex_hdb)) = 5 / 2"
    "sum_list (map transactions (chartDataCurrent ex_hdb)) = 6"
    "Max (set (map supply_cd (chartDataCurrent ex_hdb))) = 30"
    "Max (set (map burned_cd (chartDataCurrent ex_hdb))) = 5"
    "Max (set (map totalTx (chartDataCurrent ex_hdb))) = 7"
    "time ex_p3 div 86400 = 2"
    by (simp_all add: ex_chart_defs)
  from chart_flush_record [OF a b c]
  show ?thesis
    using a b c by (simp only: v simp_thms)
qed

text \<open>
  C10. When the current day of the aggregator is 0, as it is after construction,
  \<^verbatim>\<open>setChartData\<close> pushes the point in the initialisation branch and then again after the
  conditional, so the point stands twice in the buffer. Consequently, when the first
  point \<open>p\<close> of a day other than day 0 is followed by points \<open>ps\<close> of the same day and then
  by a point \<open>q\<close> of a later day, the one record that is put counts \<open>p\<close> twice: its
  difficulty is \<open>(2 * difficulty p + \<dots>) / (length ps + 2)\<close> and its transactions field is
  \<open>2 * transactions p + \<dots>\<close>.
\<close>

theorem first_point_is_buffered_twice:
  "(chartDataCurrentDate h = 0 \<longrightarrow>
     setChartData h p = Inr (h\<lparr>chartDataCurrentDate := time p div 86400,
                              chartDataCurrent := chartDataCurrent h @ [p, p]\<rparr>, []))
   \<and> (0 < time p div 86400 \<longrightarrow> (\<forall>x\<in>set ps. time x div 86400 = time p div 86400) \<longrightarrow>
        time p div 86400 < time q div 86400 \<longrightarrow>
      observeAll (HnscanDB_new m) (p # ps @ [q]) =
        Inr ((HnscanDB_new m)\<lparr>chartDataCurrent := [q], chartDataCurrentDate := time q div 86400\<rparr>,
          [(time q div 86400 * 3600 * 24,
            (2 * difficulty p + sum_list (map difficulty ps)) / real (length ps + 2),
            2 * transactions p + sum_list (map transactions ps),
            Max (set (map supply_cd (p # ps))),
            Max (set (map burned_cd (p # ps))),
            Max (set (map totalTx (p # ps))))]))"
proof (intro conjI impI)
  assume "chartDataCurrentDate h = 0"
  then show "setChartData h p = Inr (h\<lparr>chartDataCurrentDate := time p div 86400,
                              chartDataCurrent := chartDataCurrent h @ [p, p]\<rparr>, [])"
    by (rule setChartData_first)
next
  assume day: "0 < time p div 86400"
    and same: "\<forall>x\<in>set ps. time x div 86400 = time p div 86400"
    and later: "time p div 86400 < time q div 86400"
  let ?h0 = "HnscanDB_new m"
  let ?h1 = "?h0\<lparr>chartDataCurrentDate := time p div 86400, chartDataCurrent := [p, p]\<rparr>"
  let ?h2 = "?h1\<lparr>chartDataCurrent := [p, p] @ ps\<rparr>"
  have s1: "setChartData ?h0 p = Inr (?h1, [])"
    using setChartData_first [of ?h0 p] by (simp add: HnscanDB_new_def)
  have s2: "observeAll ?h1 ps = Inr (?h2, [])"
    using observeAll_same_day [of ?h1 ps] day same by simp
  from fromArray_record [of "[p, p] @ ps"] obtain avg where
    a: "fromArray ([p, p] @ ps) = Inr avg"
    and e: "encode_cd avg =
      (sum_list (map difficulty ([p, p] @ ps)) / real (length ([p, p] @ ps)),
       sum_list (map transactions ([p, p] @ ps)),
       Max (set (map supply_cd ([p, p] @ ps))),
       Max (set (map burned_cd ([p, p] @ ps))),
       Max (set (map totalTx ([p, p] @ ps))))"
    by blast
  have e': "encode_cd avg =
     ((2 * difficulty p + sum_list (map difficulty ps)) / real (length ps + 2),
      2 * transactions p + sum_list (map transactions ps),
      Max (set (map supply_cd (p # ps))),
      Max (set (map burned_cd (p # ps))),
      Max (set (map totalTx (p # ps))))"
    using e by (simp add: add.commute)
  have s3: "setChartData ?h2 q =
      Inr (?h2\<lparr>chartDataCurrent := [q], chartDataCurrentDate := time q div 86400\<rparr>,
           [(time q div 86400 * 3600 * 24, encode_cd avg)])"
    using day later a by (simp add: setChartData_def Let_def)
  have "observeAll ?h0 (p # ps @ [q]) =
      Inr (?h2\<lparr>chartDataCurrent := [q], chartDataCurrentDate := time q div 86400\<rparr>,
           [(time q div 86400 * 3600 * 24, encode_cd avg)])"
    using s1 s2 s3 by (simp add: observeAll_append)
  then show "observeAll (HnscanDB_new m) (p # ps @ [q]) =
        Inr ((HnscanDB_new m)\<lparr>chartDataCurrent := [q], chartDataCurrentDate := time q div 86400\<rparr>,
          [(time q div 86400 * 3600 * 24,
            (2 * difficulty p + sum_list (map difficulty ps)) / real (length ps + 2),
            2 * transactions p + sum_list (map transactions ps),
            Max (set (map supply_cd (p # ps))),
            Max (set (map burned_cd (p # ps))),
            Max (set (map totalTx (p # ps))))])"
    by (simp add: e')
qed

theorem first_point_is_buffered_twice_witness:
  "chartDataCurrentDate (HnscanDB_new 0) = 0
   \<and> setChartData (HnscanDB_new 0) ex_p0
       = Inr ((HnscanDB_new 0)\<lparr>chartDataCurrentDate := 1, chartDataCurrent := [ex_p0, ex_p0]\<rparr>, [])
   \<and> 0 < time ex_p0 div 86400
   \<and> time ex_p1 div 86400 = time ex_p0 div 86400
   \<and> time ex_p2 div 86400 = time ex_p0 div 86400
   \<and> time ex_p0 div 86400 < time ex_p3 div 86400
   \<and> observeAll (HnscanDB_new 0) (ex_p0 # [ex_p1, ex_p2] @ [ex_p3])
       = Inr ((HnscanDB_new 0)\<lparr>chartDataCurrent := [ex_p3], chartDataCurrentDate := 2\<rparr>,
              [(172800, (2 * 1 + (2 + 3)) / 4, 2 * 1 + (2 + 4), 30, 5, 7)])"
proof -
  have a: "chartDataCurrentDate (HnscanDB_new 0) = 0"
    by (simp add: HnscanDB_new_def)
  have b: "0 < time ex_p0 div 86400"
    and c: "\<forall>x\<in>set [ex_p1, ex_p2]. time x div 86400 = time ex_p0 div 86400"
    and d: "time ex_p0 div 86400 < time ex_p3 div 86400"
    by (simp_all add: ex_chart_defs)
  have v: "time ex_p0 div 86400 = 1" "time ex_p3 div 86400 = 2"
    "time ex_p1 div 86400 = 1" "time ex_p2 div 86400 = 1"
    "chartDataCurrent (HnscanDB_new 0) = []"
    "(2 * difficulty ex_p0 + sum_list (map difficulty [ex_p1, ex_p2]))
        / real (length [ex_p1, ex_p2] + 2) = (2 * 1 + (2 + 3)) / 4"
    "2 * transactions ex_p0 + sum_list (map transactions [ex_p1, ex_p2]) = 2 * 1 + (2 + 4)"
    "Max (set (map supply_cd (ex_p0 # [ex_p1, ex_p2]))) = 30"
    "Max (set (map burned_cd (ex_p0 # [ex_p1, ex_p2]))) = 5"
    "Max (set (map totalTx (ex_p0 # [ex_p1, ex_p2]))) = 7"
    "2 * 3600 * 24 = (172800 :: nat)"
    by (simp_all add: ex_chart_defs HnscanDB_new_def)
  note t = first_point_is_buffered_twice
    [of "HnscanDB_new 0" ex_p0 "[ex_p1, ex_p2]" ex_p3 0]
  from t [THEN conjunct1, THEN mp, OF a]
    t [THEN conjunct2, THEN mp, OF b, THEN mp, OF c, THEN mp, OF d]
  have "setChartData (HnscanDB_new 0) ex_p0
       = Inr ((HnscanDB_new 0)\<lparr>chartDataCurrentDate := 1, chartDataCurrent := [ex_p0, ex_p0]\<rparr>, [])"
    and "observeAll (HnscanDB_new 0) (ex_p0 # [ex_p1, ex_p2] @ [ex_p3])
       = Inr ((HnscanDB_new 0)\<lparr>chartDataCurrent := [ex_p3], chartDataCurrentDate := 2\<rparr>,
              [(172800, (2 * 1 + (2 + 3)) / 4, 2 * 1 + (2 + 4), 30, 5, 7)])"
    by (simp_all only: v simp_thms append_Nil)
  then show ?thesis
    using a b d by (simp add: v)
qed

section \<open>Facts about opening the store\<close>

lemma ex_store_slots:
  "slot_V ex_store = None" "slot_s ex_store = None" "slot_O ex_store = Some [1, 0, 0, 0]"
  by (simp_all add: ex_store_def)

lemma ex_open:
  "open_db (HnscanDB_new m) ex_store
     = Inr (HnscanDB_new m, ex_store\<lparr>slot_V := Some (''hnscan'', 0)\<rparr>)"
  by (simp add: open_db_def verify_def getState_def ex_store_slots)

text \<open>
  C8. The spec demands that opening a store whose persisted network magic differs from
  the configured one fails. \<^verbatim>\<open>verifyNetwork\<close> does raise the mismatch, but \<^verbatim>\<open>open\<close> never
  calls it: on the store below, whose persisted magic is 1, an index configured for the
  magic 2 fails in \<^verbatim>\<open>verifyNetwork\<close> and yet opens with success, ready for queries.
\<close>

theorem open_ignores_network_mismatch:
  "slot_O ex_store = Some (fromU32 1)
   \<and> magic (HnscanDB_new 2) = 2
   \<and> verifyNetwork (HnscanDB_new 2) ex_store = Inl NetworkMismatch
   \<and> open_db (HnscanDB_new 2) ex_store
       = Inr (HnscanDB_new 2, ex_store\<lparr>slot_V := Some (''hnscan'', 0)\<rparr>)"
proof -
  have four: "(4::nat) = Suc (Suc (Suc (Suc 0)))"
    by simp
  have "fromU32 1 = [1, 0, 0, 0]"
    unfolding fromU32_def four by simp
  moreover have "magic (HnscanDB_new 2) = 2"
    by (simp add: HnscanDB_new_def)
  moreover have "toU32 [1, 0, 0, 0] = Inr 1"
    by (simp add: toU32_def)
  ultimately have "slot_O ex_store = Some (fromU32 1)"
    and "magic (HnscanDB_new 2) = 2"
    and "verifyNetwork (HnscanDB_new 2) ex_store = Inl NetworkMismatch"
    by (simp_all add: verifyNetwork_def ex_store_slots)
  then show ?thesis
    using ex_open [of 2] by (simp only: simp_thms)
qed

text \<open>
  C9. When the store holds no chain state record and passes the version check, opening
  an index that was just constructed succeeds and its chain state is the one of the
  constructor: the tip is the hash of 32 zero bytes, and the transaction count, the coin
  count, the circulating value and the burned value are 0.
\<close>

theorem open_without_state_is_genesis:
  assumes "slot_s db = None" and "verify db ''hnscan'' 0 = Inr db1"
  shows "\<exists>hdb. open_db (HnscanDB_new m) db = Inr (hdb, db1)
       \<and> tip (state hdb) = replicate 32 0 \<and> tx (state hdb) = 0 \<and> coin (state hdb) = 0
       \<and> value_cs (state hdb) = 0 \<and> burned (state hdb) = 0"
proof -
  have "slot_s db1 = None"
    using assms by (auto simp: verify_def split: option.splits if_splits)
  then have "getState db1 = Inr None"
    by (simp add: getState_def)
  then have "open_db (HnscanDB_new m) db = Inr (HnscanDB_new m, db1)"
    using assms(2) by (simp add: open_db_def)
  then show ?thesis
    by (simp add: HnscanDB_new_def ChainState_new_def ZERO_HASH_def)
qed

theorem open_without_state_is_genesis_witness:
  "slot_s ex_store = None
   \<and> verify ex_store ''hnscan'' 0 = Inr (ex_store\<lparr>slot_V := Some (''hnscan'', 0)\<rparr>)
   \<and> (\<exists>hdb. open_db (HnscanDB_new 1) ex_store
               = Inr (hdb, ex_store\<lparr>slot_V := Some (''hnscan'', 0)\<rparr>)
         \<and> tip (state hdb) = replicate 32 0 \<and> tx (state hdb) = 0 \<and> coin (state hdb) = 0
         \<and> value_cs (state hdb) = 0 \<and> burned (state hdb) = 0)"
proof -
  have a: "slot_s ex_store = None"
    by (rule ex_store_slots)
  have b: "verify ex_store ''hnscan'' 0 = Inr (ex_store\<lparr>slot_V := Some (''hnscan'', 0)\<rparr>)"
    by (simp add: verify_def ex_store_slots)
  from open_without_state_is_genesis [OF a b, of 1]
  show ?thesis
    using a b by (simp only: simp_thms)
qed

section \<open>Facts about the address queries\<close>

lemma foldl_js_add_Some:
  "\<forall>v\<in>set vs. v \<noteq> None \<Longrightarrow> foldl js_add (Num a) vs = Num (a + sum_list (map the vs))"
proof (induction vs arbitrary: a)
  case Nil
  show ?case by simp
next
  case (Cons v vs)
  then obtain b where "v = Some b" by auto
  then show ?case using Cons by (simp add: add.assoc)
qed

text \<open>The transaction ids of the funding records are the keys of the index, in order.\<close>

lemma fundingEach_hashes:
  "fundingEach client userHash es = Inr F \<Longrightarrow> map tx_hash_f F = map fst es"
proof (induction es arbitrary: F)
  case Nil
  then show ?case by simp
next
  case (Cons e es)
  obtain txid h where e: "e = (txid, h)" by (cases e)
  from Cons.prems e obtain F' where "fundingEach client userHash es = Inr F'"
    and "tx_hash_f (hd F) = txid" "F = hd F # F'" "tl F = F'"
    by (auto split: option.splits sum.splits)
  then show ?case using Cons.IH [of F'] e by (cases F) simp_all
qed

text \<open>Every spent record points to the funding record it was made from and has its value.\<close>

lemma addressSpent_inner_from_funding:
  "addressSpent_inner db F = Inr S \<Longrightarrow>
     \<forall>s\<in>set S. \<exists>f\<in>set F.
        funding_output s = (tx_hash_f f, output_index f) \<and> value_s s = value_f f"
proof (induction F arbitrary: S)
  case Nil
  then show ?case by simp
next
  case (Cons f F)
  show ?case
  proof (cases "get_i db (take 8 (tx_hash_f f)) (output_index f)")
    case (Inl e)
    then show ?thesis using Cons.prems by simp
  next
    case (Inr r)
    show ?thesis
    proof (cases r)
      case None
      then show ?thesis using Inr Cons by simp
    next
      case (Some txHashX)
      with Inr Cons.prems obtain height S' where "addressSpent_inner db F = Inr S'"
        and "S = \<lparr>tx_hash_s = txHashX, height_s = height,
                  funding_output = (tx_hash_f f, output_index f), value_s = value_f f\<rparr> # S'"
        by (auto split: option.splits sum.splits)
      then show ?thesis using Cons.IH [of S'] by auto
    qed
  qed
qed

lemma foldl_filter:
  "foldl (\<lambda>txs s. filter (\<lambda>t. P t s) txs) xs ss = filter (\<lambda>t. \<forall>s\<in>set ss. P t s) xs"
proof (induction ss arbitrary: xs)
  case Nil
  show ?case by simp
next
  case (Cons s ss)
  show ?case by (simp add: Cons.IH conj_commute)
qed

lemma ex_store_address:
  "iter_o ex_store [7] = [(ex_txid_a, 5), (ex_txid_b, 6)]"
  "get_i ex_store (take 8 ex_txid_a) (Some (Suc 0)) = Inr (Some [3])"
  "get_i ex_store (take 8 ex_txid_b) (Some 0) = Inr None"
  "get_t ex_store [3] = Some 8"
  by (simp_all add: ex_store_def ex_txid_a_def ex_txid_b_def)

lemma ex_txid_distinct: "ex_txid_a \<noteq> ex_txid_b" "ex_txid_b \<noteq> ex_txid_a"
  by (simp_all add: ex_txid_a_def ex_txid_b_def)

lemma ex_funding:
  "addressFunding_inner ex_client ex_store [7]
     = Inr [\<lparr>tx_hash_f = ex_txid_a, height_f = 5, output_index = Some (Suc 0), value_f = Some 100\<rparr>,
            \<lparr>tx_hash_f = ex_txid_b, height_f = 6, output_index = Some 0, value_f = Some 50\<rparr>]"
  by (simp add: addressFunding_inner_def ex_store_address ex_client_def ex_txid_a_def
      ex_txid_b_def)

text \<open>
  C5. When the funding records and the spent records of an address can be read,
  \<^verbatim>\<open>addressBalance\<close> returns a balance whose unconfirmed field is the confirmed one and
  whose confirmed field is what was received less what was spent. When every funding
  record resolved its value, received is the sum of the funding values, spent is the sum
  of the values of the spent records, and the confirmed balance is their difference.
\<close>

theorem addressBalance_sums:
  assumes "addressFunding_inner client db addr = Inr F"
    and "addressSpent_inner db F = Inr S"
  shows "\<exists>bal. addressBalance client db addr = Inr bal
      \<and> unconfirmed bal = confirmed bal
      \<and> confirmed bal = js_sub (received bal) (spent bal)
      \<and> ((\<forall>f\<in>set F. value_f f \<noteq> None) \<longrightarrow>
            received bal = Num (\<Sum>f\<leftarrow>F. the (value_f f))
          \<and> spent bal = Num (\<Sum>s\<leftarrow>S. the (value_s s))
          \<and> confirmed bal = Num ((\<Sum>f\<leftarrow>F. the (value_f f)) - (\<Sum>s\<leftarrow>S. the (value_s s))))"
proof -
  let ?funded = "foldl js_add (Num 0) (map value_f F)"
  let ?spent = "foldl js_add (Num 0) (map value_s S)"
  let ?bal = "\<lparr>confirmed = js_sub ?funded ?spent, unconfirmed = js_sub ?funded ?spent,
               received = ?funded, spent = ?spent\<rparr>"
  have run: "addressBalance client db addr = Inr ?bal"
    using assms
    by (simp add: addressBalance_def addressFunding_def addressSpent_def Let_def)
  have sums: "?funded = Num (\<Sum>f\<leftarrow>F. the (value_f f)) \<and> ?spent = Num (\<Sum>s\<leftarrow>S. the (value_s s))"
    if res: "\<forall>f\<in>set F. value_f f \<noteq> None"
  proof -
    have "\<forall>s\<in>set S. value_s s \<noteq> None"
      using addressSpent_inner_from_funding [OF assms(2)] res by metis
    then have s: "?spent = Num (0 + sum_list (map the (map value_s S)))"
      by (intro foldl_js_add_Some) simp
    have f: "?funded = Num (0 + sum_list (map the (map value_f F)))"
      using res by (intro foldl_js_add_Some) simp
    show ?thesis by (simp add: f s comp_def)
  qed
  have "unconfirmed ?bal = confirmed ?bal"
    and "confirmed ?bal = js_sub (received ?bal) (spent ?bal)"
    and "(\<forall>f\<in>set F. value_f f \<noteq> None) \<longrightarrow>
            received ?bal = Num (\<Sum>f\<leftarrow>F. the (value_f f))
          \<and> spent ?bal = Num (\<Sum>s\<leftarrow>S. the (value_s s))
          \<and> confirmed ?bal = Num ((\<Sum>f\<leftarrow>F. the (value_f f)) - (\<Sum>s\<leftarrow>S. the (value_s s)))"
    using sums by simp_all
  then show ?thesis
    using run by blast
qed

lemma ex_spent:
  "addressSpent_inner ex_store
     [\<lparr>tx_hash_f = ex_txid_a, height_f = 5, output_index = Some (Suc 0), value_f = Some 100\<rparr>,
      \<lparr>tx_hash_f = ex_txid_b, height_f = 6, output_index = Some 0, value_f = Some 50\<rparr>]
     = Inr [\<lparr>tx_hash_s = [3], height_s = 8, funding_output = (ex_txid_a, Some (Suc 0)),
             value_s = Some 100\<rparr>]"
  by (simp add: ex_store_address)

theorem addressBalance_sums_witness:
  "addressFunding_inner ex_client ex_store [7]
     = Inr [\<lparr>tx_hash_f = ex_txid_a, height_f = 5, output_index = Some 1, value_f = Some 100\<rparr>,
            \<lparr>tx_hash_f = ex_txid_b, height_f = 6, output_index = Some 0, value_f = Some 50\<rparr>]
   \<and> addressSpent_inner ex_store
       [\<lparr>tx_hash_f = ex_txid_a, height_f = 5, output_index = Some 1, value_f = Some 100\<rparr>,
        \<lparr>tx_hash_f = ex_txid_b, height_f = 6, output_index = Some 0, value_f = Some 50\<rparr>]
     = Inr [\<lparr>tx_hash_s = [3], height_s = 8, funding_output = (ex_txid_a, Some 1),
             value_s = Some 100\<rparr>]
   \<and> addressBalance ex_client ex_store [7]
     = Inr \<lparr>confirmed = Num 50, unconfirmed = Num 50, received = Num 150, spent = Num 100\<rparr>"
proof -
  from addressBalance_sums [OF ex_funding ex_spent] obtain bal
    where run: "addressBalance ex_client ex_store [7] = Inr bal"
      and u: "unconfirmed bal = confirmed bal"
      and r: "received bal = Num 150" and s: "spent bal = Num 100"
      and c: "confirmed bal = Num 50"
    by auto
  have "bal = \<lparr>confirmed = Num 50, unconfirmed = Num 50, received = Num 150, spent = Num 100\<rparr>"
    using u r s c by (cases bal) simp
  then show ?thesis
    using run ex_funding ex_spent by simp
qed

lemma ex_store_address5:
  "iter_o ex_store [5] = [(ex_txid_c, 7)]"
  "get_i ex_store (take 8 ex_txid_c) (Some 0) = Inr (Some [4])"
  "get_i ex_store (take 8 ex_txid_c) (Some (Suc 0)) = Inr None"
  "get_t ex_store [4] = Some 9"
  by (simp_all add: ex_store_def ex_txid_c_def)

lemma ex_client_c:
  "ex_client ex_txid_c = Some \<lparr>inputs = [], outputs =
     [\<lparr>value_out = 10, address = [5], covenant = 0, cov_name = [], unspendable = False\<rparr>,
      \<lparr>value_out = 20, address = [5], covenant = 0, cov_name = [], unspendable = False\<rparr>]\<rparr>"
  by (simp add: ex_client_def ex_txid_a_def ex_txid_b_def ex_txid_c_def)

text \<open>
  C6. \<^verbatim>\<open>addressUnspent\<close> is to return the funding records whose pair of transaction id and
  output index is not spent, and an unspent funding output of a transaction is to stay
  in the result when another output of the same transaction is spent. The code loses
  such an output. The funding index has one key for the address and the transaction,
  \<^verbatim>\<open>_addressFunding\<close> stops at the first output that pays the address, and the filter of
  \<^verbatim>\<open>addressUnspent\<close> compares transaction ids only. Below, one transaction pays the address
  \<open>[5]\<close> at its outputs 0 and 1; output 0 is spent and output 1 has no spend pointer; the
  result of \<^verbatim>\<open>addressUnspent\<close> is empty, so the unspent output 1 is not in it.
\<close>

theorem addressUnspent_misses_second_output:
  "ex_client ex_txid_c = Some \<lparr>inputs = [], outputs =
     [\<lparr>value_out = 10, address = [5], covenant = 0, cov_name = [], unspendable = False\<rparr>,
      \<lparr>value_out = 20, address = [5], covenant = 0, cov_name = [], unspendable = False\<rparr>]\<rparr>
   \<and> iter_o ex_store [5] = [(ex_txid_c, 7)]
   \<and> get_i ex_store (take 8 ex_txid_c) (Some 0) = Inr (Some [4])
   \<and> get_i ex_store (take 8 ex_txid_c) (Some 1) = Inr None
   \<and> addressFunding_inner ex_client ex_store [5]
       = Inr [\<lparr>tx_hash_f = ex_txid_c, height_f = 7, output_index = Some 0, value_f = Some 10\<rparr>]
   \<and> addressUnspent ex_client ex_store [5] = Inr []"
proof -
  have f: "addressFunding_inner ex_client ex_store [5]
       = Inr [\<lparr>tx_hash_f = ex_txid_c, height_f = 7, output_index = Some 0, value_f = Some 10\<rparr>]"
    by (simp add: addressFunding_inner_def ex_store_address5 ex_client_c)
  have u: "addressUnspent ex_client ex_store [5] = Inr []"
    by (simp add: addressUnspent_def addressFunding_def addressSpent_def f ex_store_address5
        newtx_of_def)
  show ?thesis
    using f u ex_client_c ex_store_address5 by simp
qed

text \<open>
  On the funding records that the index does yield, one for every transaction that pays
  the address (the range iterator yields every key once), the comparison of transaction
  ids alone is as good as the comparison of pairs: when the funding and the spent records
  can be read, \<^verbatim>\<open>addressUnspent\<close> returns exactly those funding records whose pair of
  transaction id and output index is not the funding output of a spent record.
\<close>

theorem addressUnspent_pairs:
  assumes keys: "distinct (map fst (iter_o db addr))"
    and F: "addressFunding_inner client db addr = Inr F"
    and S: "addressSpent_inner db F = Inr S"
  shows "map tx_hash_f F = map fst (iter_o db addr)
      \<and> addressUnspent client db addr
          = Inr (map newtx_of
                  (filter (\<lambda>f. (tx_hash_f f, output_index f) \<notin> set (map funding_output S)) F))"
proof -
  have us: "addressUnspent client db addr
      = Inr (foldl (\<lambda>txs s. filter (\<lambda>t. tx_hash_u t \<noteq> fst (funding_output s)) txs)
               (map newtx_of F) S)"
    using F S by (simp add: addressUnspent_def addressFunding_def addressSpent_def)
  have k: "map tx_hash_f F = map fst (iter_o db addr)"
    using F fundingEach_hashes [of client addr "iter_o db addr" F]
    by (simp add: addressFunding_inner_def)
  have d: "distinct (map tx_hash_f F)"
    using keys k by simp
  have eq: "(\<forall>s\<in>set S. tx_hash_f f \<noteq> fst (funding_output s))
            \<longleftrightarrow> (tx_hash_f f, output_index f) \<notin> set (map funding_output S)"
    if f: "f \<in> set F" for f
  proof
    assume a: "\<forall>s\<in>set S. tx_hash_f f \<noteq> fst (funding_output s)"
    show "(tx_hash_f f, output_index f) \<notin> set (map funding_output S)"
    proof
      assume "(tx_hash_f f, output_index f) \<in> set (map funding_output S)"
      then obtain s where "s \<in> set S" "funding_output s = (tx_hash_f f, output_index f)"
        by auto
      then show False using a by (metis fst_conv)
    qed
  next
    assume n: "(tx_hash_f f, output_index f) \<notin> set (map funding_output S)"
    show "\<forall>s\<in>set S. tx_hash_f f \<noteq> fst (funding_output s)"
    proof
      fix s assume s: "s \<in> set S"
      from addressSpent_inner_from_funding [OF S] s obtain g where g: "g \<in> set F"
        and fo: "funding_output s = (tx_hash_f g, output_index g)" by blast
      show "tx_hash_f f \<noteq> fst (funding_output s)"
      proof
        assume "tx_hash_f f = fst (funding_output s)"
        then have "tx_hash_f f = tx_hash_f g" using fo by simp
        then have "f = g" using d f g by (meson distinct_map inj_onD)
        then show False using n fo s by force
      qed
    qed
  qed
  have "foldl (\<lambda>txs s. filter (\<lambda>t. tx_hash_u t \<noteq> fst (funding_output s)) txs)
               (map newtx_of F) S
      = map newtx_of (filter (\<lambda>f. \<forall>s\<in>set S. tx_hash_f f \<noteq> fst (funding_output s)) F)"
    by (simp add: foldl_filter filter_map comp_def newtx_of_def)
  also have "\<dots> = map newtx_of
                (filter (\<lambda>f. (tx_hash_f f, output_index f) \<notin> set (map funding_output S)) F)"
    by (rule arg_cong [where f = "map newtx_of"], rule filter_cong) (simp_all add: eq)
  finally show ?thesis using us k by simp
qed

theorem addressUnspent_pairs_witness:
  "distinct (map fst (iter_o ex_store [7]))
   \<and> addressFunding_inner ex_client ex_store [7]
     = Inr [\<lparr>tx_hash_f = ex_txid_a, height_f = 5, output_index = Some 1, value_f = Some 100\<rparr>,
            \<lparr>tx_hash_f = ex_txid_b, height_f = 6, output_index = Some 0, value_f = Some 50\<rparr>]
   \<and> addressSpent_inner ex_store
       [\<lparr>tx_hash_f = ex_txid_a, height_f = 5, output_index = Some 1, value_f = Some 100\<rparr>,
        \<lparr>tx_hash_f = ex_txid_b, height_f = 6, output_index = Some 0, value_f = Some 50\<rparr>]
     = Inr [\<lparr>tx_hash_s = [3], height_s = 8, funding_output = (ex_txid_a, Some 1),
             value_s = Some 100\<rparr>]
   \<and> addressUnspent ex_client ex_store [7]
       = Inr [\<lparr>tx_hash_u = ex_txid_b, height_u = 6, tx_pos = Some 0, value_u = Some 50\<rparr>]"
proof -
  have a: "distinct (map fst (iter_o ex_store [7]))"
    by (simp add: ex_store_address ex_txid_distinct)
  from addressUnspent_pairs [OF a ex_funding ex_spent]
  have "addressUnspent ex_client ex_store [7]
       = Inr [\<lparr>tx_hash_u = ex_txid_b, height_u = 6, tx_pos = Some 0, value_u = Some 50\<rparr>]"
    by (simp add: newtx_of_def ex_txid_distinct)
  then show ?thesis
    using a ex_funding ex_spent by simp
qed

section \<open>Facts about the name history\<close>

lemma compare_height_le: "compare_height a b \<le> 0 \<longleftrightarrow> height_n b \<le> height_n a"
  by (simp add: compare_height_def)

text \<open>Every outcome of the sort has the heights in descending order, and so in one order only.\<close>

lemma sort_result_heights:
  assumes "sort_result compare_height xs ys"
  shows "map height_n ys = rev (sort (map height_n xs))"
    and "sorted_wrt (\<lambda>a b. height_n b \<le> height_n a) ys"
    and "length ys = length xs"
proof -
  from assms have m: "mset ys = mset xs"
    and s: "sorted_wrt (\<lambda>a b. compare_height a b \<le> 0) ys"
    by (simp_all add: sort_result_def)
  show d: "sorted_wrt (\<lambda>a b. height_n b \<le> height_n a) ys"
    using s by (simp add: compare_height_le)
  have "sorted_wrt (\<lambda>x y. y \<le> x) (map height_n ys)"
    using d by (simp add: sorted_wrt_map)
  then have "sorted (rev (map height_n ys))"
    by (simp add: sorted_wrt_rev)
  moreover have "mset (rev (map height_n ys)) = mset (map height_n xs)"
    using m by (metis mset_map mset_rev)
  ultimately have "sort (map height_n xs) = rev (map height_n ys)"
    by (metis properties_for_sort)
  then show "map height_n ys = rev (sort (map height_n xs))"
    by (metis rev_rev_ident)
  show "length ys = length xs"
    using m by (metis size_mset)
qed

text \<open>The sort has an outcome for every list: the reverse of the stable ascending order.\<close>

lemma sort_result_exists: "sort_result compare_height xs (rev (sort_key height_n xs))"
proof -
  have "sorted (map height_n (sort_key height_n xs))"
    by (rule sorted_sort_key)
  then have "sorted_wrt (\<lambda>a b. height_n a \<le> height_n b) (sort_key height_n xs)"
    by (simp add: sorted_wrt_map)
  then have "sorted_wrt (\<lambda>a b. height_n b \<le> height_n a) (rev (sort_key height_n xs))"
    by (simp add: sorted_wrt_rev)
  then show ?thesis
    by (simp add: sort_result_def compare_height_le)
qed

lemma historyOutputs_height:
  "\<forall>e\<in>set (historyOutputs nameHash item t outs j). height_h e = height_n item"
  by (induction outs arbitrary: j) auto

lemma historyList_sorted:
  assumes "historyList getTx nameHash items = Inr history"
    and "sorted_wrt (\<lambda>a b. height_n b \<le> height_n a) items"
  shows "sorted_wrt (\<lambda>a b. height_h b \<le> height_h a) history
       \<and> (\<forall>e\<in>set history. \<exists>item\<in>set items. height_h e = height_n item)"
  using assms
proof (induction items arbitrary: history)
  case Nil
  then show ?case by simp
next
  case (Cons item items)
  from Cons.prems(1) obtain t rest where t: "getTx (tx_hash_n item) = Some t"
    and rest: "historyList getTx nameHash items = Inr rest"
    and h: "history = historyOutputs nameHash item (mtime t) (outputs_j t) 0 @ rest"
    by (auto split: option.splits sum.splits)
  from Cons.prems(2) have lower: "\<forall>x\<in>set items. height_n x \<le> height_n item"
    and srt: "sorted_wrt (\<lambda>a b. height_n b \<le> height_n a) items"
    by simp_all
  from Cons.IH [OF rest srt]
  have ih1: "sorted_wrt (\<lambda>a b. height_h b \<le> height_h a) rest"
    and ih2: "\<forall>e\<in>set rest. \<exists>x\<in>set items. height_h e = height_n x"
    by simp_all
  let ?here = "historyOutputs nameHash item (mtime t) (outputs_j t) 0"
  have same: "\<forall>e\<in>set ?here. height_h e = height_n item"
    by (rule historyOutputs_height)
  have a: "sorted_wrt (\<lambda>a b. height_h b \<le> height_h a) ?here"
    using same by (simp add: sorted_wrt_iff_nth_less)
  have b: "\<forall>x\<in>set ?here. \<forall>y\<in>set rest. height_h y \<le> height_h x"
    using same ih2 lower by fastforce
  have c: "\<forall>e\<in>set history. \<exists>x\<in>set (item # items). height_h e = height_n x"
    using same ih2 h by auto
  show ?case
    using a b c ih1 by (simp add: h sorted_wrt_append)
qed

lemma ex_store_names:
  "nameHistory ex_store [9]
     = [\<lparr>tx_hash_n = [1], height_n = 10\<rparr>, \<lparr>tx_hash_n = [2], height_n = 40\<rparr>,
        \<lparr>tx_hash_n = [3], height_n = 25\<rparr>]"
  "nameHistory ex_store [8]
     = [\<lparr>tx_hash_n = [5], height_n = 5\<rparr>, \<lparr>tx_hash_n = [6], height_n = 5\<rparr>]"
  by (simp_all add: nameHistory_def ex_store_def)

lemmas history_defs = getNameHistory_sorted_def slice_def Let_def ex_getTransaction_def
  isName_def action_of_def CLAIM_def OPEN_def BID_def REVEAL_def REDEEM_def REGISTER_def
  UPDATE_def RENEW_def REVOKE_def

text \<open>
  C7. The name history is to come in descending order of height, records of equal height
  in the order of their insertion. The comparison function answers \<open>-1\<close> for two records
  of the same height in either order and never \<open>0\<close>, so it does not tell the sort which of
  them was inserted first, and the outcome in which the later record comes first is an
  outcome of the sort. Below, the two records of the name \<open>[8]\<close> have the height 5; the
  history of that outcome lists the transaction \<open>[6]\<close> before the transaction \<open>[5]\<close>,
  against the order of insertion.
\<close>

theorem name_history_ties_not_by_insertion:
  "nameHistory ex_store [8]
     = [\<lparr>tx_hash_n = [5], height_n = 5\<rparr>, \<lparr>tx_hash_n = [6], height_n = 5\<rparr>]
   \<and> compare_height \<lparr>tx_hash_n = [5], height_n = 5\<rparr> \<lparr>tx_hash_n = [6], height_n = 5\<rparr> = - 1
   \<and> compare_height \<lparr>tx_hash_n = [6], height_n = 5\<rparr> \<lparr>tx_hash_n = [5], height_n = 5\<rparr> = - 1
   \<and> sort_result compare_height (nameHistory ex_store [8])
        [\<lparr>tx_hash_n = [6], height_n = 5\<rparr>, \<lparr>tx_hash_n = [5], height_n = 5\<rparr>]
   \<and> getNameHistory_sorted ex_getTransaction [8]
        [\<lparr>tx_hash_n = [6], height_n = 5\<rparr>, \<lparr>tx_hash_n = [5], height_n = 5\<rparr>] 0 25
       = Inr ([\<lparr>action = Some ''Bid'', value_h = Some 2, time_h = 50, height_h = 5,
                 txid_h = [6], index_h = 0\<rparr>,
               \<lparr>action = Some ''Opened'', value_h = None, time_h = 50, height_h = 5,
                 txid_h = [5], index_h = 0\<rparr>], 2)"
  by (simp add: ex_store_names compare_height_def sort_result_def history_defs)

lemma historyList_total:
  "\<forall>item\<in>set items. getTx (tx_hash_n item) \<noteq> None \<Longrightarrow>
     \<exists>history. historyList getTx nameHash items = Inr history"
proof (induction items)
  case Nil
  show ?case by simp
next
  case (Cons item items)
  then obtain t rest where "getTx (tx_hash_n item) = Some t"
    and "historyList getTx nameHash items = Inr rest"
    by auto
  then show ?case by simp
qed

text \<open>
  The descending order itself holds. Whatever outcome the sort produces, the heights of
  the sorted list are the heights of the records of the name in descending order; when
  the transactions of the page are found, \<^verbatim>\<open>getNameHistory\<close> returns a history in
  descending order of height, together with the number of records of the name. Records
  at the heights 10, 40 and 25 come out at 40, 25, 10. The sort always has an outcome,
  the descending order that reverses records of equal height being one of them.
\<close>

theorem name_history_descending:
  assumes "sort_result compare_height (nameHistory db nameHash) entireList"
    and "\<forall>item\<in>set (slice entireList offset (offset + limit)). getTx (tx_hash_n item) \<noteq> None"
  shows "map height_n entireList = rev (sort (map height_n (nameHistory db nameHash)))
       \<and> (\<exists>history. getNameHistory_sorted getTx nameHash entireList offset limit
                       = Inr (history, length (iter_n db nameHash))
             \<and> sorted_wrt (\<lambda>a b. height_h b \<le> height_h a) history)
       \<and> sort_result compare_height (nameHistory db nameHash)
             (rev (sort_key height_n (nameHistory db nameHash)))"
proof -
  note sr = sort_result_heights [OF assms(1)]
  from historyList_total [OF assms(2)] obtain history
    where hl: "historyList getTx nameHash (slice entireList offset (offset + limit)) = Inr history"
    by blast
  have "sorted_wrt (\<lambda>a b. height_n b \<le> height_n a) (slice entireList offset (offset + limit))"
    unfolding slice_def using sr(2) by (intro sorted_wrt_take sorted_wrt_drop)
  from historyList_sorted [OF hl this]
  have srt: "sorted_wrt (\<lambda>a b. height_h b \<le> height_h a) history" by simp
  have "length entireList = length (iter_n db nameHash)"
    using sr(3) by (simp add: nameHistory_def)
  then have "getNameHistory_sorted getTx nameHash entireList offset limit
               = Inr (history, length (iter_n db nameHash))"
    using hl by (simp add: getNameHistory_sorted_def Let_def)
  then show ?thesis using sr(1) srt sort_result_exists by blast
qed

theorem name_history_descending_witness:
  "sort_result compare_height (nameHistory ex_store [9])
     [\<lparr>tx_hash_n = [2], height_n = 40\<rparr>, \<lparr>tx_hash_n = [3], height_n = 25\<rparr>,
      \<lparr>tx_hash_n = [1], height_n = 10\<rparr>]
   \<and> ex_getTransaction [2] \<noteq> None \<and> ex_getTransaction [3] \<noteq> None
   \<and> ex_getTransaction [1] \<noteq> None
   \<and> map height_n (nameHistory ex_store [9]) = [10, 40, 25]
   \<and> rev (sort (map height_n (nameHistory ex_store [9]))) = [40, 25, 10]
   \<and> getNameHistory_sorted ex_getTransaction [9]
        [\<lparr>tx_hash_n = [2], height_n = 40\<rparr>, \<lparr>tx_hash_n = [3], height_n = 25\<rparr>,
         \<lparr>tx_hash_n = [1], height_n = 10\<rparr>] 0 25
       = Inr ([\<lparr>action = Some ''Bid'', value_h = Some 7, time_h = 400, height_h = 40,
                 txid_h = [2], index_h = 1\<rparr>,
               \<lparr>action = Some ''Reveal'', value_h = Some 7, time_h = 250, height_h = 25,
                 txid_h = [3], index_h = 0\<rparr>,
               \<lparr>action = Some ''Opened'', value_h = None, time_h = 100, height_h = 10,
                 txid_h = [1], index_h = 0\<rparr>], length (iter_n ex_store [9]))"
proof -
  let ?sorted = "[\<lparr>tx_hash_n = [2], height_n = 40\<rparr>, \<lparr>tx_hash_n = [3], height_n = 25\<rparr>,
      \<lparr>tx_hash_n = [1], height_n = 10\<rparr>]"
  have a: "sort_result compare_height (nameHistory ex_store [9]) ?sorted"
    by (simp add: ex_store_names sort_result_def compare_height_def)
  have g: "ex_getTransaction [2] \<noteq> None" "ex_getTransaction [3] \<noteq> None"
    "ex_getTransaction [1] \<noteq> None"
    by (simp_all add: ex_getTransaction_def)
  have b: "\<forall>item\<in>set (slice ?sorted 0 (0 + 25)). ex_getTransaction (tx_hash_n item) \<noteq> None"
    using g by (simp add: slice_def)
  have c: "map height_n (nameHistory ex_store [9]) = [10, 40, 25]"
    by (simp add: ex_store_names)
  have e: "getNameHistory_sorted ex_getTransaction [9] ?sorted 0 25
       = Inr ([\<lparr>action = Some ''Bid'', value_h = Some 7, time_h = 400, height_h = 40,
                 txid_h = [2], index_h = 1\<rparr>,
               \<lparr>action = Some ''Reveal'', value_h = Some 7, time_h = 250, height_h = 25,
                 txid_h = [3], index_h = 0\<rparr>,
               \<lparr>action = Some ''Opened'', value_h = None, time_h = 100, height_h = 10,
                 txid_h = [1], index_h = 0\<rparr>], length (iter_n ex_store [9]))"
    by (simp add: history_defs ex_store_def)
  from name_history_descending [OF a b]
  have "rev (sort (map height_n (nameHistory ex_store [9]))) = [40, 25, 10]"
    by simp
  then show ?thesis
    using a g c e by (simp only: simp_thms)
qed

end
